theory Spec2Isabelle
  imports Main "HOL-Library.Sublist" "HOL-Library.Word"
begin

unbundle bit_operations_syntax

section \<open>C library primitives used by the sources\<close>

text \<open>
  C strings are modelled as \<^typ>\<open>string\<close> (the bytes before the terminating NUL).
  \<^verbatim>\<open>snprintf(buf, n, fmt, ...)\<close> stores at most \<open>n - 1\<close> bytes of the formatted text
  and terminates it; the argument of \<open>snprintf\<close> below is the text already formatted.
\<close>

definition nl :: char where
  "nl = CHR 0x0A"

definition snprintf :: "nat \<Rightarrow> string \<Rightarrow> string" where
  "snprintf n s = take (n - 1) s"

text \<open>Decimal output (\<^verbatim>\<open>%u\<close>, \<^verbatim>\<open>%d\<close>, \<^verbatim>\<open>%ld\<close>) and zero padding (\<^verbatim>\<open>%03u\<close>, \<^verbatim>\<open>%03d\<close>).\<close>

definition digit_char :: "nat \<Rightarrow> char" where
  "digit_char d = ''0123456789'' ! d"

fun dec_digits :: "nat \<Rightarrow> string" where
  "dec_digits n = (if n < 10 then [digit_char n] else dec_digits (n div 10) @ [digit_char (n mod 10)])"

declare dec_digits.simps [simp del]

definition zero_pad :: "nat \<Rightarrow> string \<Rightarrow> string" where
  "zero_pad w s = replicate (w - length s) CHR ''0'' @ s"

definition fmt_u :: "nat \<Rightarrow> string" where
  "fmt_u n = dec_digits n"

definition fmt_0u :: "nat \<Rightarrow> nat \<Rightarrow> string" where
  "fmt_0u w n = zero_pad w (dec_digits n)"

definition fmt_d :: "int \<Rightarrow> string" where
  "fmt_d i = (if i < 0 then CHR ''-'' # dec_digits (nat (- i)) else dec_digits (nat i))"

definition fmt_0d :: "nat \<Rightarrow> int \<Rightarrow> string" where
  "fmt_0d w i = (if i < 0 then CHR ''-'' # zero_pad (w - 1) (dec_digits (nat (- i)))
                 else zero_pad w (dec_digits (nat i)))"

subsection \<open>Decimal input: \<^verbatim>\<open>isdigit\<close>, \<^verbatim>\<open>isspace\<close>, \<^verbatim>\<open>%u\<close> of \<^verbatim>\<open>sscanf\<close>\<close>

definition is_digit :: "char \<Rightarrow> bool" where
  "is_digit c \<longleftrightarrow> (48::nat) \<le> of_char c \<and> of_char c \<le> (57::nat)"

definition digit_val :: "char \<Rightarrow> nat" where
  "digit_val c = of_char c - 48"

definition isspace :: "char \<Rightarrow> bool" where
  "isspace c \<longleftrightarrow> c = CHR '' '' \<or> c = CHR 0x09 \<or> c = CHR 0x0A \<or> c = CHR 0x0B \<or> c = CHR 0x0C \<or> c = CHR 0x0D"

definition dec_value :: "string \<Rightarrow> nat" where
  "dec_value ds = foldl (\<lambda>a c. 10 * a + digit_val c) 0 ds"

text \<open>
  The \<^verbatim>\<open>%u\<close> conversion of \<^verbatim>\<open>sscanf\<close>: white space is skipped, an optional sign and a
  non-empty run of digits are read as by \<^verbatim>\<open>strtoul\<close> (a magnitude beyond
  \<^verbatim>\<open>unsigned long\<close> gives \<^verbatim>\<open>ULONG_MAX\<close> whatever the sign; otherwise a minus sign negates
  modulo \<open>2^64\<close>) and the result is stored into an \<^verbatim>\<open>unsigned int\<close>. \<open>None\<close> is a matching failure; otherwise the value and the rest of
  the input. A literal character of the format matches itself only.
\<close>

definition to_unsigned_int :: "bool \<Rightarrow> nat \<Rightarrow> nat" where
  "to_unsigned_int neg v =
     (let ul = (if v > 2 ^ 64 - 1 then 2 ^ 64 - 1
                else if neg then (2 ^ 64 - v) mod 2 ^ 64
                else v)
      in ul mod 2 ^ 32)"

definition scan_u :: "string \<Rightarrow> (nat \<times> string) option" where
  "scan_u s =
     (let s1 = dropWhile isspace s;
          neg = (s1 \<noteq> [] \<and> hd s1 = CHR ''-'');
          s2 = (if s1 \<noteq> [] \<and> (hd s1 = CHR ''-'' \<or> hd s1 = CHR ''+'') then tl s1 else s1);
          ds = takeWhile is_digit s2
      in if ds = [] then None
         else Some (to_unsigned_int neg (dec_value ds), dropWhile is_digit s2))"

definition scan_lit :: "char \<Rightarrow> string \<Rightarrow> string option" where
  "scan_lit c s = (case s of [] \<Rightarrow> None | x # xs \<Rightarrow> if x = c then Some xs else None)"

subsection \<open>Facts about decimal output and input\<close>

lemma digit_char_cases:
  "d < 10 \<Longrightarrow> is_digit (digit_char d) \<and> digit_val (digit_char d) = d \<and> \<not> isspace (digit_char d)
     \<and> digit_char d \<noteq> CHR ''+'' \<and> digit_char d \<noteq> CHR ''-''"
proof -
  assume "d < 10"
  then have "d = 0 \<or> d = 1 \<or> d = 2 \<or> d = 3 \<or> d = 4 \<or> d = 5 \<or> d = 6 \<or> d = 7 \<or> d = 8 \<or> d = 9"
    by arith
  then show ?thesis
    by (elim disjE) (simp_all add: digit_char_def is_digit_def digit_val_def isspace_def)
qed

lemma dec_value_snoc: "dec_value (ds @ [c]) = 10 * dec_value ds + digit_val c"
  by (simp add: dec_value_def)

lemma dec_value_dec_digits: "dec_value (dec_digits n) = n"
proof (induction n rule: dec_digits.induct)
  case (1 n)
  show ?case
  proof (cases "n < 10")
    case True
    then show ?thesis by (simp add: dec_digits.simps [of n] dec_value_def digit_char_cases)
  next
    case False
    with 1 have "dec_value (dec_digits (n div 10)) = n div 10" by simp
    moreover have "digit_val (digit_char (n mod 10)) = n mod 10"
      by (simp add: digit_char_cases)
    ultimately show ?thesis using False
      by (simp add: dec_digits.simps [of n] dec_value_snoc)
  qed
qed

lemma dec_digits_all_digits: "list_all is_digit (dec_digits n)"
proof (induction n rule: dec_digits.induct)
  case (1 n)
  then show ?case
    by (cases "n < 10") (simp_all add: dec_digits.simps [of n] digit_char_cases)
qed

lemma dec_digits_nonempty: "dec_digits n \<noteq> []"
  by (simp add: dec_digits.simps [of n])

lemma length_dec_digits: "n < 10 ^ k \<Longrightarrow> 0 < k \<Longrightarrow> length (dec_digits n) \<le> k"
proof (induction n arbitrary: k rule: dec_digits.induct)
  case (1 n)
  show ?case
  proof (cases "n < 10")
    case True
    with 1(3) show ?thesis by (simp add: dec_digits.simps [of n])
  next
    case False
    with 1(2,3) obtain j where k: "k = Suc j" and j: "0 < j"
      by (cases k; cases "k - 1") auto
    with 1(2) have "n div 10 < 10 ^ j" by (simp add: less_mult_imp_div_less mult.commute)
    from 1(1) [OF False this j] k False show ?thesis
      by (simp add: dec_digits.simps [of n])
  qed
qed

lemma hd_dec_digits:
  "is_digit (hd (dec_digits n)) \<and> \<not> isspace (hd (dec_digits n))
     \<and> hd (dec_digits n) \<noteq> CHR ''+'' \<and> hd (dec_digits n) \<noteq> CHR ''-''"
proof (induction n rule: dec_digits.induct)
  case (1 n)
  then show ?case
    by (cases "n < 10") (simp_all add: dec_digits.simps [of n] digit_char_cases dec_digits_nonempty)
qed

lemma scan_u_dec_digits:
  assumes "n < 2 ^ 32" and "rest = [] \<or> \<not> is_digit (hd rest)"
  shows "scan_u (dec_digits n @ rest) = Some (n, rest)"
proof -
  obtain x xs where x: "dec_digits n = x # xs"
    using dec_digits_nonempty [of n] by (cases "dec_digits n") auto
  with hd_dec_digits [of n] have hx: "is_digit x" "\<not> isspace x" "x \<noteq> CHR ''+''" "x \<noteq> CHR ''-''"
    by simp_all
  have all: "\<forall>c \<in> set (dec_digits n). is_digit c"
    using dec_digits_all_digits [of n] by (simp add: list_all_iff)
  have tw: "takeWhile is_digit (dec_digits n @ rest) = dec_digits n"
    using all assms(2) by (cases rest) (simp_all add: takeWhile_append2)
  have dw: "dropWhile is_digit (dec_digits n @ rest) = rest"
    using all assms(2) by (cases rest) (simp_all add: dropWhile_append2)
  have s1: "dropWhile isspace (dec_digits n @ rest) = dec_digits n @ rest"
    using hx by (simp add: x)
  have val: "to_unsigned_int False n = n"
    using assms(1) by (simp add: to_unsigned_int_def Let_def min_def)
  show ?thesis
    unfolding scan_u_def s1 Let_def
    using hd_dec_digits [of n] tw dw val by (simp add: dec_value_dec_digits dec_digits_nonempty)
qed


lemma length_fmt_0u: "n < 10 ^ k \<Longrightarrow> 0 < k \<Longrightarrow> length (fmt_0u k n) = k"
  using length_dec_digits [of n k] by (simp add: fmt_0u_def zero_pad_def)

lemma dec_digits_small: "n < 10 \<Longrightarrow> dec_digits n = [digit_char n]"
  by (simp add: dec_digits.simps [of n])

lemma dec_digits_large:
  "\<not> n < 10 \<Longrightarrow> dec_digits n = dec_digits (n div 10) @ [digit_char (n mod 10)]"
  by (simp add: dec_digits.simps [of n])

lemma replicate_numeral: "replicate (numeral k) x = x # replicate (pred_numeral k) x"
  by (simp add: numeral_eq_Suc)

lemmas dec_eval = dec_digits_small dec_digits_large digit_char_def fmt_u_def fmt_0u_def
  fmt_d_def fmt_0d_def zero_pad_def replicate_numeral

section \<open>Batch executor (router\_facts\_loader.c)\<close>

text \<open>
  \<^verbatim>\<open>batch_context_t\<close>: the script buffer is the NUL-terminated text held in the mapped
  shared memory, \<open>buffer_size\<close> the recorded number of bytes, \<open>buffer_capacity\<close> the
  size of the mapping.
\<close>

record batch_context =
  shm_fd :: int
  shm_path :: string
  script_buffer :: string
  buffer_size :: nat
  buffer_capacity :: nat

definition batch_header :: string where
  "batch_header = ''#!/bin/bash'' @ [nl] @ ''set -e'' @ [nl]"

text \<open>
  \<^verbatim>\<open>create_batch_context\<close> on the path where \<^verbatim>\<open>shm_open\<close>, \<^verbatim>\<open>ftruncate\<close> and
  \<^verbatim>\<open>mmap\<close> succeed (\<open>fd\<close> and \<open>name\<close> are what the system handed out): capacity
  \<open>initial_size\<close>, or 1 MiB when that is 0, and the buffer initialised with the header.
\<close>

definition create_batch_context :: "int \<Rightarrow> string \<Rightarrow> nat \<Rightarrow> batch_context" where
  "create_batch_context fd name initial_size =
     \<lparr> shm_fd = fd, shm_path = name, script_buffer = batch_header,
       buffer_size = length batch_header,
       buffer_capacity = (if initial_size \<noteq> 0 then initial_size else 1024 * 1024) \<rparr>"

text \<open>
  \<^verbatim>\<open>batch_add_command(ctx, namespace, command)\<close>. \<open>None\<close> is a NULL pointer. The line
  is formatted into the local \<^verbatim>\<open>full_cmd[8192]\<close> by \<^verbatim>\<open>snprintf\<close>; \<^verbatim>\<open>memcpy\<close> writes it
  at offset \<open>buffer_size\<close> of the script buffer and the NUL is stored behind it. The
  result is the return value and the context afterwards. (\<^verbatim>\<open>size_t\<close> arithmetic cannot
  wrap here: the sizes are bounded by the mapping and by 8191.)
\<close>

definition full_cmd :: "string option \<Rightarrow> string \<Rightarrow> string" where
  "full_cmd namespace command =
     (case namespace of
        Some ns \<Rightarrow> snprintf 8192 (''ip netns exec '' @ ns @ '' '' @ command @ [nl])
      | None \<Rightarrow> snprintf 8192 (command @ [nl]))"

definition batch_add_command ::
  "batch_context option \<Rightarrow> string option \<Rightarrow> string option \<Rightarrow> int \<times> batch_context option" where
  "batch_add_command ctx namespace command =
     (case ctx of
        None \<Rightarrow> (-1, ctx)
      | Some c \<Rightarrow>
          (case command of
             None \<Rightarrow> (-1, ctx)
           | Some cmd \<Rightarrow>
               (let cmd_len = length (full_cmd namespace cmd) in
                if buffer_size c + cmd_len + 1 > buffer_capacity c
                then (-1, ctx)
                else (0, Some (c\<lparr> script_buffer :=
                                     take (buffer_size c) (script_buffer c) @ full_cmd namespace cmd,
                                   buffer_size := buffer_size c + cmd_len \<rparr>)))))"

text \<open>The line the specification prescribes for a command (no truncation).\<close>

definition batch_line :: "string option \<Rightarrow> string \<Rightarrow> string" where
  "batch_line namespace command =
     (case namespace of
        Some ns \<Rightarrow> ''ip netns exec '' @ ns @ '' '' @ command @ [nl]
      | None \<Rightarrow> command @ [nl])"

subsection \<open>Properties of the batch executor\<close>

lemma full_cmd_fits:
  "length (batch_line ns cmd) < 8192 \<Longrightarrow> full_cmd ns cmd = batch_line ns cmd"
  by (cases ns) (simp_all add: full_cmd_def batch_line_def snprintf_def)

lemma create_batch_context_size:
  "buffer_size (create_batch_context fd name n) = length (script_buffer (create_batch_context fd name n))"
  by (simp add: create_batch_context_def)

text \<open>A failing add leaves the context as it was, whatever the command.\<close>

lemma batch_add_command_failure_unchanged:
  "fst (batch_add_command ctx ns command) \<noteq> 0 \<Longrightarrow> snd (batch_add_command ctx ns command) = ctx"
  by (cases ctx; cases command) (auto simp: batch_add_command_def Let_def split: if_splits)

text \<open>A successful add keeps everything recorded so far as a prefix of the script.\<close>

lemma batch_add_command_success_prefix:
  assumes "buffer_size c = length (script_buffer c)"
      and "batch_add_command (Some c) ns (Some cmd) = (0, Some c')"
  shows "prefix (script_buffer c) (script_buffer c') \<and> buffer_size c' = length (script_buffer c')"
  using assms by (auto simp: batch_add_command_def Let_def split: if_splits)

text \<open>
  Claim C7 as stated fails for a command whose line does not fit the 8192-byte
  \<^verbatim>\<open>full_cmd\<close>: a command of 8191 bytes is appended without its newline.
\<close>

theorem batch_add_command_truncates_long_line:
  "snd (batch_add_command (Some (create_batch_context 3 ''/tsim_batch_1_1'' 0)) None
          (Some (replicate 8191 CHR ''x'')))
     = Some ((create_batch_context 3 ''/tsim_batch_1_1'' 0)
               \<lparr> script_buffer := batch_header @ replicate 8191 CHR ''x'',
                 buffer_size := 8210 \<rparr>)
   \<and> batch_header @ replicate 8191 CHR ''x''
       \<noteq> batch_header @ batch_line None (replicate 8191 CHR ''x'')"
  by (simp add: batch_add_command_def full_cmd_def snprintf_def create_batch_context_def
        batch_header_def batch_line_def Let_def)

text \<open>
  Claim C7, amended: for a context whose recorded size is the length of its script and a
  command whose line (\<open>ip netns exec <ns> <command>\<close> and a newline when a namespace is
  given, the command and a newline otherwise) is shorter than 8192 bytes, the add fails
  with -1 and leaves the context unchanged when size + line + 1 exceeds the capacity,
  and otherwise returns 0 having appended exactly that line and advanced the size by its
  length.
\<close>

theorem batch_add_command_line:
  assumes "buffer_size c = length (script_buffer c)"
      and "length (batch_line ns cmd) < 8192"
  shows "batch_add_command (Some c) ns (Some cmd) =
           (if buffer_size c + length (batch_line ns cmd) + 1 > buffer_capacity c
            then (-1, Some c)
            else (0, Some (c\<lparr> script_buffer := script_buffer c @ batch_line ns cmd,
                               buffer_size := buffer_size c + length (batch_line ns cmd) \<rparr>)))"
  using assms by (simp add: batch_add_command_def Let_def full_cmd_fits)

theorem batch_add_command_line_witness:
  "batch_add_command (Some (create_batch_context 3 ''/tsim_batch_1_1'' 0)) (Some ''r1'')
       (Some ''ip link set lo up'')
     = (0, Some ((create_batch_context 3 ''/tsim_batch_1_1'' 0)
                   \<lparr> script_buffer := batch_header @ ''ip netns exec r1 ip link set lo up'' @ [nl],
                     buffer_size := 54 \<rparr>))"
  using batch_add_command_line [of "create_batch_context 3 ''/tsim_batch_1_1'' 0"
      "Some ''r1''" "''ip link set lo up''"]
  by (simp add: create_batch_context_def batch_header_def batch_line_def)

section \<open>Restoring packet filters and IP sets (router\_facts\_loader.c)\<close>

text \<open>
  \<^verbatim>\<open>iptables_block_t\<close> and \<^verbatim>\<open>ipset_block_t\<close> have the same two fields: the raw content
  (a C string, \<open>None\<close> for NULL) and its recorded size.
\<close>

record save_block =
  raw_content :: "string option"
  content_size :: nat

type_synonym iptables_block_t = save_block
type_synonym ipset_block_t = save_block

text \<open>
  What the operating system answers: the clock, whether \<^verbatim>\<open>shm_open\<close>, \<^verbatim>\<open>ftruncate\<close>
  and \<^verbatim>\<open>mmap\<close> succeed, and the status \<^verbatim>\<open>system\<close> returns for a command line.
\<close>

record shm_env =
  time_now :: int
  shm_open_ok :: "string \<Rightarrow> bool"
  ftruncate_ok :: "string \<Rightarrow> nat \<Rightarrow> bool"
  mmap_ok :: "string \<Rightarrow> nat \<Rightarrow> bool"
  system_status :: "string \<Rightarrow> int"

datatype shm_event =
    ShmOpen string
  | Ftruncate string nat
  | Mmap string nat
  | Memcpy string string
  | Munmap string
  | Close string
  | ShmUnlink string
  | System string

definition is_blank :: "char \<Rightarrow> bool" where
  "is_blank c \<longleftrightarrow> c = CHR '' '' \<or> c = CHR 0x09 \<or> c = CHR 0x0A \<or> c = CHR 0x0D"

text \<open>
  The common body of the two apply functions: \<open>stem\<close> is the stem of the shared
  memory name and \<open>tool\<close> the restore command. The result is the trace of system
  calls made and the value returned.
\<close>

definition apply_with_shm ::
  "string \<Rightarrow> string \<Rightarrow> shm_env \<Rightarrow> string \<Rightarrow> save_block option \<Rightarrow> shm_event list \<times> int" where
  "apply_with_shm stem tool env namespace block =
     (case block of
        None \<Rightarrow> ([], 0)
      | Some b \<Rightarrow>
          (case raw_content b of
             None \<Rightarrow> ([], 0)
           | Some content \<Rightarrow>
               (let p = dropWhile is_blank content in
                if p = [] \<or> content_size b = 0 then ([], 0)
                else
                  (let shm_name = snprintf 256 (stem @ namespace @ ''_'' @ fmt_d (time_now env));
                       sz = content_size b in
                   if \<not> shm_open_ok env shm_name then ([ShmOpen shm_name], -1)
                   else if \<not> ftruncate_ok env shm_name sz
                   then ([ShmOpen shm_name, Ftruncate shm_name sz, Close shm_name,
                          ShmUnlink shm_name], -1)
                   else if \<not> mmap_ok env shm_name sz
                   then ([ShmOpen shm_name, Ftruncate shm_name sz, Mmap shm_name sz,
                          Close shm_name, ShmUnlink shm_name], -1)
                   else
                     (let cmd = snprintf 512 (''ip netns exec '' @ namespace @ '' '' @ tool
                                                @ '' < /dev/shm'' @ shm_name)
                      in ([ShmOpen shm_name, Ftruncate shm_name sz, Mmap shm_name sz,
                           Memcpy shm_name (take sz content), Munmap shm_name, Close shm_name,
                           System cmd, ShmUnlink shm_name],
                          system_status env cmd))))))"

definition apply_iptables_with_shm ::
  "shm_env \<Rightarrow> string \<Rightarrow> iptables_block_t option \<Rightarrow> shm_event list \<times> int" where
  "apply_iptables_with_shm = apply_with_shm ''/tsim_iptables_'' ''iptables-restore''"

definition apply_ipset_with_shm ::
  "shm_env \<Rightarrow> string \<Rightarrow> ipset_block_t option \<Rightarrow> shm_event list \<times> int" where
  "apply_ipset_with_shm = apply_with_shm ''/tsim_ipset_'' ''ipset restore''"

text \<open>
  A block with nothing to restore: absent, without content, of recorded size zero, or
  holding only spaces, tabs, newlines and carriage returns.
\<close>

definition nothing_to_restore :: "save_block option \<Rightarrow> bool" where
  "nothing_to_restore block =
     (case block of
        None \<Rightarrow> True
      | Some b \<Rightarrow>
          (case raw_content b of
             None \<Rightarrow> True
           | Some content \<Rightarrow> content_size b = 0 \<or> list_all is_blank content))"

subsection \<open>Properties of the apply functions\<close>

lemma apply_with_shm_nothing:
  "nothing_to_restore block \<Longrightarrow> apply_with_shm stem tool env ns block = ([], 0)"
  by (auto simp: apply_with_shm_def nothing_to_restore_def list_all_iff
        Let_def split: option.splits)

lemma apply_with_shm_something:
  "\<not> nothing_to_restore block \<Longrightarrow> fst (apply_with_shm stem tool env ns block) \<noteq> []"
  by (auto simp: apply_with_shm_def nothing_to_restore_def list_all_iff
        Let_def split: option.splits)

text \<open>
  Claim C10: when the block is absent, has no content, has size zero or holds only
  whitespace, both apply operations return 0 with an empty trace (no shared-memory
  object, no restore command); and whenever either of them makes any system call at all
  (in particular runs the restore command), the block holds non-whitespace content of
  non-zero size.
\<close>

theorem apply_with_shm_skips_blank:
  "(nothing_to_restore block \<longrightarrow>
      apply_iptables_with_shm env ns block = ([], 0) \<and>
      apply_ipset_with_shm env ns block = ([], 0))
   \<and> (fst (apply_iptables_with_shm env ns block) \<noteq> [] \<or>
        fst (apply_ipset_with_shm env ns block) \<noteq> [] \<longrightarrow>
        (\<exists>b content. block = Some b \<and> raw_content b = Some content \<and> content_size b \<noteq> 0
            \<and> (\<exists>c \<in> set content. \<not> is_blank c)))"
proof (intro conjI impI)
  assume "nothing_to_restore block"
  then show "apply_iptables_with_shm env ns block = ([], 0)"
    and "apply_ipset_with_shm env ns block = ([], 0)"
    by (simp_all add: apply_iptables_with_shm_def apply_ipset_with_shm_def apply_with_shm_nothing)
next
  assume "fst (apply_iptables_with_shm env ns block) \<noteq> [] \<or>
          fst (apply_ipset_with_shm env ns block) \<noteq> []"
  then have "\<not> nothing_to_restore block"
    by (auto simp: apply_iptables_with_shm_def apply_ipset_with_shm_def apply_with_shm_nothing)
  then show "\<exists>b content. block = Some b \<and> raw_content b = Some content \<and> content_size b \<noteq> 0
            \<and> (\<exists>c \<in> set content. \<not> is_blank c)"
    by (auto simp: nothing_to_restore_def list_all_iff split: option.splits)
qed

theorem apply_with_shm_skips_blank_witness:
  "\<forall>env.
     apply_iptables_with_shm env ''r1''
       (Some \<lparr> raw_content = Some [CHR '' '', CHR 0x0A, CHR 0x09, CHR 0x0D], content_size = 4 \<rparr>) = ([], 0)
     \<and> apply_ipset_with_shm env ''r1''
       (Some \<lparr> raw_content = Some [CHR '' '', CHR 0x0A, CHR 0x09, CHR 0x0D], content_size = 4 \<rparr>) = ([], 0)"
proof
  fix env
  show "apply_iptables_with_shm env ''r1''
       (Some \<lparr> raw_content = Some [CHR '' '', CHR 0x0A, CHR 0x09, CHR 0x0D], content_size = 4 \<rparr>) = ([], 0)
     \<and> apply_ipset_with_shm env ''r1''
       (Some \<lparr> raw_content = Some [CHR '' '', CHR 0x0A, CHR 0x09, CHR 0x0D], content_size = 4 \<rparr>) = ([], 0)"
    using apply_with_shm_skips_blank [of
        "Some \<lparr> raw_content = Some [CHR '' '', CHR 0x0A, CHR 0x09, CHR 0x0D], content_size = 4 \<rparr>"
        env "''r1''"]
    by (simp add: nothing_to_restore_def is_blank_def)
qed

text \<open>A block with content is restored: the trace ends with the restore command and the unlink.\<close>

lemma apply_iptables_with_shm_example:
  "apply_iptables_with_shm
     \<lparr> time_now = 17, shm_open_ok = (\<lambda>_. True), ftruncate_ok = (\<lambda>_ _. True),
       mmap_ok = (\<lambda>_ _. True), system_status = (\<lambda>_. 0) \<rparr> ''r1''
     (Some \<lparr> raw_content = Some ''*filter'', content_size = 7 \<rparr>)
   = ([ShmOpen ''/tsim_iptables_r1_17'', Ftruncate ''/tsim_iptables_r1_17'' 7,
       Mmap ''/tsim_iptables_r1_17'' 7, Memcpy ''/tsim_iptables_r1_17'' ''*filter'',
       Munmap ''/tsim_iptables_r1_17'', Close ''/tsim_iptables_r1_17'',
       System ''ip netns exec r1 iptables-restore < /dev/shm/tsim_iptables_r1_17'',
       ShmUnlink ''/tsim_iptables_r1_17''], 0)"
  by (simp add: apply_iptables_with_shm_def apply_with_shm_def is_blank_def Let_def snprintf_def
        dec_eval)

section \<open>Entry point of the topology engine (hidden\_mesh\_setup.c, main)\<close>

text \<open>
  What \<^verbatim>\<open>main\<close> observes from outside: whether the mesh context could be allocated,
  the effective UID, whether the facts load, whether the hidden infrastructure could be
  created, and the interrupt flag as read after the infrastructure phase and at the end.
\<close>

record main_env =
  context_created :: bool
  geteuid :: nat
  load_facts_ok :: bool
  hidden_infrastructure_ok :: bool
  interrupted_after_infrastructure :: bool
  interrupted_at_end :: bool

record mesh_options =
  verbose :: nat
  parallel :: bool
  limit_pattern :: "string option"

text \<open>
  The steps of \<^verbatim>\<open>main\<close> that matter outside the process: loading the facts (with the
  verbosity and limit in force at that moment), the teardown \<^verbatim>\<open>cleanup_namespaces\<close>, the
  usage text, the root diagnostic, and the setup phases.
\<close>

datatype main_event =
    LoadFacts nat "string option"
  | CleanupNamespaces
  | PrintUsage
  | MustBeRoot
  | InitSharedRegistry
  | CreateHiddenInfrastructure
  | SetupRouters bool
  | PrintSummary

text \<open>
  The argument loop \<^verbatim>\<open>for (i = 1; i < argc; i++)\<close>. It either returns from \<^verbatim>\<open>main\<close>
  (\<open>Inl\<close> the exit status) or falls through with the options collected (\<open>Inr\<close>).
  \<^verbatim>\<open>--limit\<close> consumes the next argument only when there is one; an argument that
  matches nothing is skipped.
\<close>

fun parse_arguments ::
  "main_env \<Rightarrow> string list \<Rightarrow> mesh_options \<Rightarrow> main_event list \<times> (int + mesh_options)" where
  "parse_arguments env [] opts = ([], Inr opts)"
| "parse_arguments env (a # rest) opts =
     (if a = ''-v'' \<or> a = ''--verbose''
      then parse_arguments env rest (opts\<lparr> verbose := verbose opts + 1 \<rparr>)
      else if a = ''-p'' \<or> a = ''--parallel''
      then parse_arguments env rest (opts\<lparr> parallel := True \<rparr>)
      else if a = ''--limit'' \<and> rest \<noteq> []
      then parse_arguments env (tl rest) (opts\<lparr> limit_pattern := Some (hd rest) \<rparr>)
      else if a = ''--cleanup''
      then (if load_facts_ok env
            then ([LoadFacts (verbose opts) (limit_pattern opts), CleanupNamespaces], Inl 0)
            else ([LoadFacts (verbose opts) (limit_pattern opts)], Inl 0))
      else if a = ''-h'' \<or> a = ''--help''
      then ([PrintUsage], Inl 0)
      else parse_arguments env rest opts)"

text \<open>
  \<^verbatim>\<open>main(argc, argv)\<close>: \<open>argv\<close> includes the program name. The result is the trace and
  the exit status.
\<close>

definition mesh_main :: "main_env \<Rightarrow> string list \<Rightarrow> main_event list \<times> int" where
  "mesh_main env argv =
     (if \<not> context_created env then ([], 1)
      else
        (case parse_arguments env (tl argv) \<lparr> verbose = 0, parallel = False, limit_pattern = None \<rparr> of
           (evs, Inl status) \<Rightarrow> (evs, status)
         | (evs, Inr opts) \<Rightarrow>
             if geteuid env \<noteq> 0 then (evs @ [MustBeRoot], 1)
             else if \<not> load_facts_ok env
             then (evs @ [LoadFacts (verbose opts) (limit_pattern opts)], 1)
             else if \<not> hidden_infrastructure_ok env
             then (evs @ [LoadFacts (verbose opts) (limit_pattern opts), InitSharedRegistry,
                          CreateHiddenInfrastructure], 1)
             else if interrupted_after_infrastructure env
             then (evs @ [LoadFacts (verbose opts) (limit_pattern opts), InitSharedRegistry,
                          CreateHiddenInfrastructure], 130)
             else (evs @ [LoadFacts (verbose opts) (limit_pattern opts), InitSharedRegistry,
                          CreateHiddenInfrastructure, SetupRouters (parallel opts), PrintSummary],
                   if interrupted_at_end env then 130 else 0)))"

text \<open>
  The arguments that make the loop return early: \<^verbatim>\<open>--cleanup\<close>, \<^verbatim>\<open>-h\<close> or \<^verbatim>\<open>--help\<close>
  in a position where the loop reads it as an option (not as the value of \<^verbatim>\<open>--limit\<close>).
\<close>

fun first_action :: "string list \<Rightarrow> string option" where
  "first_action [] = None"
| "first_action (a # rest) =
     (if a = ''--limit'' \<and> rest \<noteq> [] then first_action (tl rest)
      else if a = ''--cleanup'' \<or> a = ''-h'' \<or> a = ''--help'' then Some a
      else first_action rest)"

subsection \<open>Properties of the entry point\<close>

lemma parse_arguments_no_action:
  "first_action args = None \<Longrightarrow> \<exists>opts'. parse_arguments env args opts = ([], Inr opts')"
proof (induction args arbitrary: opts rule: first_action.induct)
  case 1
  then show ?case by simp
next
  case (2 a rest)
  show ?case
  proof (cases "a = ''--limit'' \<and> rest \<noteq> []")
    case True
    with 2 show ?thesis by simp
  next
    case False
    with 2 have na: "a \<noteq> ''--cleanup''" "a \<noteq> ''-h''" "a \<noteq> ''--help''" and fa: "first_action rest = None"
      by (simp_all split: if_splits)
    from 2(2) [OF False _ fa] na have "\<And>opts. \<exists>opts'. parse_arguments env rest opts = ([], Inr opts')"
      by simp
    with False na show ?thesis by simp
  qed
qed

lemma parse_arguments_help:
  "first_action args = Some a \<Longrightarrow> a \<noteq> ''--cleanup'' \<Longrightarrow>
     parse_arguments env args opts = ([PrintUsage], Inl 0)"
proof (induction args arbitrary: opts rule: first_action.induct)
  case 1
  then show ?case by simp
next
  case (2 b rest)
  show ?case
  proof (cases "b = ''--limit'' \<and> rest \<noteq> []")
    case True
    with 2 show ?thesis by simp
  next
    case False
    show ?thesis
    proof (cases "b = ''--cleanup'' \<or> b = ''-h'' \<or> b = ''--help''")
      case True
      with False 2(3,4) have "b = ''-h'' \<or> b = ''--help''" by auto
      then show ?thesis by auto
    next
      case nact: False
      with False 2(3) have "first_action rest = Some a" by (auto split: if_splits)
      from 2(2) [OF False nact this 2(4)] nact False show ?thesis by simp
    qed
  qed
qed

lemma parse_arguments_cleanup:
  "first_action args = Some ''--cleanup'' \<Longrightarrow>
     \<exists>v l. parse_arguments env args opts =
       (if load_facts_ok env then [LoadFacts v l, CleanupNamespaces] else [LoadFacts v l], Inl 0)"
proof (induction args arbitrary: opts rule: first_action.induct)
  case 1
  then show ?case by simp
next
  case (2 b rest)
  show ?case
  proof (cases "b = ''--limit'' \<and> rest \<noteq> []")
    case True
    with 2 show ?thesis by simp
  next
    case False
    show ?thesis
    proof (cases "b = ''--cleanup'' \<or> b = ''-h'' \<or> b = ''--help''")
      case True
      with False 2(3) have "b = ''--cleanup''" by auto
      then show ?thesis by auto
    next
      case nact: False
      with False 2(3) have "first_action rest = Some ''--cleanup''" by (auto split: if_splits)
      from 2(2) [OF False nact this] nact False show ?thesis by simp
    qed
  qed
qed

text \<open>
  Without \<^verbatim>\<open>--cleanup\<close> and help among the options, a process that is not root does
  nothing but print the diagnostic, and exits with status 1.
\<close>

lemma mesh_main_not_root:
  assumes "geteuid env \<noteq> 0" and "context_created env" and "first_action (tl argv) = None"
  shows "mesh_main env argv = ([MustBeRoot], 1)"
proof -
  obtain opts' where "parse_arguments env (tl argv)
      \<lparr> verbose = 0, parallel = False, limit_pattern = None \<rparr> = ([], Inr opts')"
    using parse_arguments_no_action [OF assms(3)] by blast
  with assms(1,2) show ?thesis by (simp add: mesh_main_def)
qed

text \<open>
  With \<^verbatim>\<open>--cleanup\<close> as the first such option the teardown runs and the exit status is
  0, whatever the effective UID.
\<close>

lemma mesh_main_cleanup_any_uid:
  assumes "context_created env" and "load_facts_ok env"
      and "first_action (tl argv) = Some ''--cleanup''"
  shows "\<exists>v l. mesh_main env argv = ([LoadFacts v l, CleanupNamespaces], 0)"
proof -
  obtain v l where "parse_arguments env (tl argv)
      \<lparr> verbose = 0, parallel = False, limit_pattern = None \<rparr>
        = ([LoadFacts v l, CleanupNamespaces], Inl 0)"
    using parse_arguments_cleanup [OF assms(3), of env] assms(2) by fastforce
  with assms(1) show ?thesis by (simp add: mesh_main_def)
qed

text \<open>
  Claim C4 at the input \<^verbatim>\<open>hidden_mesh_setup --cleanup\<close> run with effective UID 1000 and
  loadable facts: the claim asks for no teardown and exit status 1; the code loads the
  facts, runs \<^verbatim>\<open>cleanup_namespaces\<close> and exits with status 0, because the \<^verbatim>\<open>--cleanup\<close>
  branch returns from inside the argument loop, before the root check.
\<close>

theorem mesh_main_cleanup_without_root:
  "mesh_main \<lparr> context_created = True, geteuid = 1000, load_facts_ok = True,
               hidden_infrastructure_ok = True, interrupted_after_infrastructure = False,
               interrupted_at_end = False \<rparr>
     [''hidden_mesh_setup'', ''--cleanup'']
   = ([LoadFacts 0 None, CleanupNamespaces], 0)"
  by (simp add: mesh_main_def)

section \<open>Bridge naming (hidden\_mesh\_setup.c)\<close>

text \<open>
  \<^verbatim>\<open>sscanf(subnet, "%u.%u.%u.%u/%u", ...)\<close>: \<open>Some\<close> the five values when all five
  conversions succeed (the call returns 5), \<open>None\<close> otherwise.
\<close>

definition sscanf_subnet :: "string \<Rightarrow> (nat \<times> nat \<times> nat \<times> nat \<times> nat) option" where
  "sscanf_subnet s =
     (case scan_u s of None \<Rightarrow> None | Some (o1, s1) \<Rightarrow>
      (case scan_lit CHR ''.'' s1 of None \<Rightarrow> None | Some s2 \<Rightarrow>
      (case scan_u s2 of None \<Rightarrow> None | Some (o2, s3) \<Rightarrow>
      (case scan_lit CHR ''.'' s3 of None \<Rightarrow> None | Some s4 \<Rightarrow>
      (case scan_u s4 of None \<Rightarrow> None | Some (o3, s5) \<Rightarrow>
      (case scan_lit CHR ''.'' s5 of None \<Rightarrow> None | Some s6 \<Rightarrow>
      (case scan_u s6 of None \<Rightarrow> None | Some (o4, s7) \<Rightarrow>
      (case scan_lit CHR ''/'' s7 of None \<Rightarrow> None | Some s8 \<Rightarrow>
      (case scan_u s8 of None \<Rightarrow> None | Some (prefix_len, s9) \<Rightarrow>
         Some (o1, o2, o3, o4, prefix_len))))))))))"

text \<open>
  \<^verbatim>\<open>generate_bridge_name(subnet, bridge_name, size)\<close>; the result is the text left in
  \<^verbatim>\<open>bridge_name\<close>. \<open>now\<close> is \<^verbatim>\<open>time(NULL)\<close>, read by the fallback only. The callers
  pass \<^verbatim>\<open>sizeof(bridge_name)\<close>, which is \<^verbatim>\<open>MAX_BRIDGE_NAME\<close> = 16.
\<close>

definition generate_bridge_name :: "nat \<Rightarrow> string \<Rightarrow> nat \<Rightarrow> string" where
  "generate_bridge_name now subnet sz =
     (case sscanf_subnet subnet of
        Some (o1, o2, o3, o4, prefix_len) \<Rightarrow>
          snprintf sz (''b'' @ fmt_0u 3 o1 @ fmt_0u 3 o2 @ fmt_0u 3 o3 @ fmt_0u 3 o4
                           @ fmt_0u 2 prefix_len)
      | None \<Rightarrow> snprintf sz (''bridge'' @ fmt_u (now mod 10000)))"

text \<open>
  The canonical text of a subnet, as the engine prints it (\<^verbatim>\<open>inet_ntoa\<close> and
  \<^verbatim>\<open>"%s/%u"\<close>): the four octets and the prefix in decimal without padding.
\<close>

definition subnet_text :: "nat \<Rightarrow> nat \<Rightarrow> nat \<Rightarrow> nat \<Rightarrow> nat \<Rightarrow> string" where
  "subnet_text a b c d p =
     fmt_u a @ ''.'' @ fmt_u b @ ''.'' @ fmt_u c @ ''.'' @ fmt_u d @ ''/'' @ fmt_u p"

subsection \<open>Properties of bridge naming\<close>

lemma sscanf_subnet_text:
  assumes "a < 2 ^ 32" "b < 2 ^ 32" "c < 2 ^ 32" "d < 2 ^ 32" "p < 2 ^ 32"
  shows "sscanf_subnet (subnet_text a b c d p) = Some (a, b, c, d, p)"
proof -
  have nd: "\<not> is_digit CHR ''.''" "\<not> is_digit CHR ''/''"
    by (simp_all add: is_digit_def)
  have 1: "scan_u (dec_digits a @ CHR ''.'' # r) = Some (a, CHR ''.'' # r)" for r
    using scan_u_dec_digits [OF assms(1), of "CHR ''.'' # r"] nd by simp
  have 2: "scan_u (dec_digits b @ CHR ''.'' # r) = Some (b, CHR ''.'' # r)" for r
    using scan_u_dec_digits [OF assms(2), of "CHR ''.'' # r"] nd by simp
  have 3: "scan_u (dec_digits c @ CHR ''.'' # r) = Some (c, CHR ''.'' # r)" for r
    using scan_u_dec_digits [OF assms(3), of "CHR ''.'' # r"] nd by simp
  have 4: "scan_u (dec_digits d @ CHR ''/'' # r) = Some (d, CHR ''/'' # r)" for r
    using scan_u_dec_digits [OF assms(4), of "CHR ''/'' # r"] nd by simp
  have 5: "scan_u (dec_digits p) = Some (p, [])"
    using scan_u_dec_digits [OF assms(5), of "[]"] by simp
  show ?thesis
    by (simp add: sscanf_subnet_def subnet_text_def fmt_u_def 1 2 3 4 5 scan_lit_def)
qed

text \<open>
  Claim C9: for the canonical text of a subnet with octets at most 255 and prefix at most
  32, and a name buffer of at least 16 bytes, the bridge name is \<open>b\<close>, the four octets
  zero-padded to three digits each and the prefix zero-padded to two digits: 15
  characters. The name does not depend on the clock or on any registry: it is a function
  of the subnet text alone.
\<close>

theorem generate_bridge_name_canonical:
  assumes "a \<le> 255" "b \<le> 255" "c \<le> 255" "d \<le> 255" "p \<le> 32" "16 \<le> sz"
  shows "generate_bridge_name now (subnet_text a b c d p) sz
           = ''b'' @ fmt_0u 3 a @ fmt_0u 3 b @ fmt_0u 3 c @ fmt_0u 3 d @ fmt_0u 2 p
         \<and> length (generate_bridge_name now (subnet_text a b c d p) sz) = 15"
proof -
  have s: "sscanf_subnet (subnet_text a b c d p) = Some (a, b, c, d, p)"
    using assms by (intro sscanf_subnet_text) simp_all
  have l: "length (fmt_0u 3 a) = 3" "length (fmt_0u 3 b) = 3" "length (fmt_0u 3 c) = 3"
    "length (fmt_0u 3 d) = 3" "length (fmt_0u 2 p) = 2"
    using assms by (simp_all add: length_fmt_0u)
  show ?thesis using l assms(6)
    by (simp add: generate_bridge_name_def s snprintf_def)
qed

theorem generate_bridge_name_canonical_witness:
  "\<forall>now. generate_bridge_name now ''10.1.1.0/24'' 16 = ''b01000100100024''
     \<and> length (generate_bridge_name now ''10.1.1.0/24'' 16) = 15"
proof
  fix now
  show "generate_bridge_name now ''10.1.1.0/24'' 16 = ''b01000100100024''
     \<and> length (generate_bridge_name now ''10.1.1.0/24'' 16) = 15"
    using generate_bridge_name_canonical [of 10 1 1 0 24 16 now]
    by (simp add: subnet_text_def dec_eval)
qed

section \<open>C strings: searching, tokenising, scanning\<close>

text \<open>
  Reading through a pointer that was moved past the terminating NUL of a string, or
  writing past the end of a fixed buffer, has no defined result in C. The model makes
  such a step the outcome \<open>Inl OutOfBounds\<close> instead of inventing a value for it.
\<close>

datatype fault = OutOfBounds

text \<open>
  \<^verbatim>\<open>strstr(hay, needle)\<close>: the offset of the first occurrence of \<open>needle\<close> in
  \<open>hay\<close>, \<open>None\<close> for NULL.
\<close>

fun strstr :: "string \<Rightarrow> string \<Rightarrow> nat option" where
  "strstr [] needle = (if needle = [] then Some 0 else None)"
| "strstr (c # cs) needle =
     (if prefix needle (c # cs) then Some 0 else map_option Suc (strstr cs needle))"

definition contains :: "string \<Rightarrow> string \<Rightarrow> bool" where
  "contains s needle \<longleftrightarrow> strstr s needle \<noteq> None"

text \<open>\<^verbatim>\<open>sscanf(s, "%s", buf)\<close>: white space is skipped, then the run up to the next white space is stored.\<close>

definition scan_s :: "string \<Rightarrow> string" where
  "scan_s s = takeWhile (\<lambda>c. \<not> isspace c) (dropWhile isspace s)"

text \<open>
  \<^verbatim>\<open>atoi\<close>: white space, an optional sign and the leading digits, read as by
  \<^verbatim>\<open>strtol\<close> (clamped to \<^verbatim>\<open>long\<close>) and converted to \<^verbatim>\<open>int\<close>; 0 when there is no digit.
\<close>

definition atoi :: "string \<Rightarrow> int" where
  "atoi s =
     (let s1 = dropWhile isspace s;
          neg = (s1 \<noteq> [] \<and> hd s1 = CHR ''-'');
          s2 = (if s1 \<noteq> [] \<and> (hd s1 = CHR ''-'' \<or> hd s1 = CHR ''+'') then tl s1 else s1);
          v = int (dec_value (takeWhile is_digit s2));
          l = (if neg then max (- (2 ^ 63)) (- v) else min (2 ^ 63 - 1) v)
      in (l + 2 ^ 31) mod 2 ^ 32 - 2 ^ 31)"

lemma dropWhile_Cons_not: "dropWhile P xs = y # ys \<Longrightarrow> \<not> P y"
  by (induction xs) (auto split: if_splits)

text \<open>
  The loop \<^verbatim>\<open>for (line = strtok_r(s, d, &save); line; line = strtok_r(NULL, d, &save))\<close>
  with a single delimiter character: the tokens are the maximal non-empty runs without
  the delimiter, in order.
\<close>

function strtok_all :: "char \<Rightarrow> string \<Rightarrow> string list" where
  "strtok_all d s =
     (let s1 = dropWhile (\<lambda>c. c = d) s
      in if s1 = [] then []
         else takeWhile (\<lambda>c. c \<noteq> d) s1 # strtok_all d (dropWhile (\<lambda>c. c \<noteq> d) s1))"
  by pat_completeness auto
termination
proof (relation "measure (\<lambda>(d, s). length s)")
  show "wf (measure (\<lambda>(d, s). length s))" by simp
next
  fix d :: char and s x
  assume x: "x = dropWhile (\<lambda>c. c = d) s" and ne: "x \<noteq> []"
  from ne obtain c cs where c: "x = c # cs" by (cases x) simp_all
  have "c \<noteq> d" using c x dropWhile_Cons_not [of "\<lambda>c. c = d" s c cs] by simp
  with c have "length (dropWhile (\<lambda>c. c \<noteq> d) x) \<le> length cs"
    by (simp add: length_dropWhile_le)
  moreover have "length x \<le> length s" using x by (simp add: length_dropWhile_le)
  ultimately show "((d, dropWhile (\<lambda>c. c \<noteq> d) x), (d, s)) \<in> measure (\<lambda>(d, s). length s)"
    using c by simp
qed

declare strtok_all.simps [simp del]

subsection \<open>Facts about searching and tokenising\<close>

definition first_occurrence :: "string \<Rightarrow> string \<Rightarrow> nat \<Rightarrow> bool" where
  "first_occurrence needle hay k \<longleftrightarrow>
     k \<le> length hay \<and> prefix needle (drop k hay) \<and> (\<forall>j<k. \<not> prefix needle (drop j hay))"

definition no_occurrence :: "string \<Rightarrow> string \<Rightarrow> bool" where
  "no_occurrence needle hay \<longleftrightarrow> (\<forall>j\<le>length hay. \<not> prefix needle (drop j hay))"

lemma strstr_Some_iff: "strstr hay needle = Some k \<longleftrightarrow> first_occurrence needle hay k"
proof (induction hay arbitrary: k)
  case Nil
  then show ?case by (auto simp: first_occurrence_def)
next
  case (Cons c cs)
  show ?case
  proof (cases "prefix needle (c # cs)")
    case True
    then show ?thesis by (auto simp: first_occurrence_def)
  next
    case False
    have "first_occurrence needle (c # cs) k \<longleftrightarrow> (\<exists>k'. k = Suc k' \<and> first_occurrence needle cs k')"
    proof
      assume fo: "first_occurrence needle (c # cs) k"
      with False obtain k' where k: "k = Suc k'"
        by (cases k) (auto simp: first_occurrence_def)
      have "\<forall>j<k'. \<not> prefix needle (drop j cs)"
      proof (intro allI impI)
        fix j assume "j < k'"
        then have "Suc j < k" using k by simp
        with fo have "\<not> prefix needle (drop (Suc j) (c # cs))"
          unfolding first_occurrence_def by blast
        then show "\<not> prefix needle (drop j cs)" by simp
      qed
      with fo k show "\<exists>k'. k = Suc k' \<and> first_occurrence needle cs k'"
        by (auto simp: first_occurrence_def)
    next
      assume "\<exists>k'. k = Suc k' \<and> first_occurrence needle cs k'"
      then obtain k' where k: "k = Suc k'" and fo: "first_occurrence needle cs k'" by blast
      have "\<forall>j<k. \<not> prefix needle (drop j (c # cs))"
      proof (intro allI impI)
        fix j assume j: "j < k"
        show "\<not> prefix needle (drop j (c # cs))"
        proof (cases j)
          case 0
          with False show ?thesis by simp
        next
          case (Suc j')
          with j k have "j' < k'" by simp
          with fo have "\<not> prefix needle (drop j' cs)" unfolding first_occurrence_def by blast
          with Suc show ?thesis by simp
        qed
      qed
      with fo k show "first_occurrence needle (c # cs) k"
        by (auto simp: first_occurrence_def)
    qed
    with False Cons.IH show ?thesis by (cases k) auto
  qed
qed

lemma strstr_None_iff: "strstr hay needle = None \<longleftrightarrow> no_occurrence needle hay"
proof (induction hay)
  case Nil
  then show ?case by (auto simp: no_occurrence_def)
next
  case (Cons c cs)
  have "no_occurrence needle (c # cs) \<longleftrightarrow> \<not> prefix needle (c # cs) \<and> no_occurrence needle cs"
  proof
    assume no: "no_occurrence needle (c # cs)"
    then have "\<not> prefix needle (drop 0 (c # cs))" unfolding no_occurrence_def by blast
    moreover have "no_occurrence needle cs"
      unfolding no_occurrence_def
    proof (intro allI impI)
      fix j assume "j \<le> length cs"
      then have "Suc j \<le> length (c # cs)" by simp
      with no have "\<not> prefix needle (drop (Suc j) (c # cs))" unfolding no_occurrence_def by blast
      then show "\<not> prefix needle (drop j cs)" by simp
    qed
    ultimately show "\<not> prefix needle (c # cs) \<and> no_occurrence needle cs" by simp
  next
    assume a: "\<not> prefix needle (c # cs) \<and> no_occurrence needle cs"
    show "no_occurrence needle (c # cs)"
      unfolding no_occurrence_def
    proof (intro allI impI)
      fix j assume "j \<le> length (c # cs)"
      then show "\<not> prefix needle (drop j (c # cs))"
        using a by (cases j) (auto simp: no_occurrence_def)
    qed
  qed
  with Cons.IH show ?case by auto
qed

lemma strstr_le: "strstr hay needle = Some i \<Longrightarrow> i \<le> length hay"
  by (simp add: strstr_Some_iff first_occurrence_def)

lemma strtok_all_Nil: "strtok_all d [] = []"
  by (simp add: strtok_all.simps)

lemma strtok_all_Cons:
  "strtok_all d (c # cs) =
     (if c = d then strtok_all d cs
      else (c # takeWhile (\<lambda>x. x \<noteq> d) cs) # strtok_all d (dropWhile (\<lambda>x. x \<noteq> d) cs))"
  by (subst strtok_all.simps, subst (2) strtok_all.simps) (simp add: Let_def)

section \<open>Facts parser: sections (router\_facts\_loader.c, find\_section)\<close>

text \<open>
  The two markers are formatted into 256-byte buffers. \<^verbatim>\<open>find_section\<close> returns NULL
  (\<open>Inr None\<close>), or a fresh copy of the body (\<open>Inr (Some body)\<close>). After the start marker
  it looks for the first \<open>---\<close> and steps 4 bytes on without looking at the fourth.
\<close>

definition rtrim_blank :: "string \<Rightarrow> string" where
  "rtrim_blank s = rev (dropWhile is_blank (rev s))"

definition start_marker :: "string \<Rightarrow> string" where
  "start_marker section_name = snprintf 256 (''=== TSIM_SECTION_START:'' @ section_name @ '' ==='')"

definition end_marker :: "string \<Rightarrow> string" where
  "end_marker section_name = snprintf 256 (''=== TSIM_SECTION_END:'' @ section_name @ '' ==='')"

definition exit_code_marker :: string where
  "exit_code_marker = nl # ''EXIT_CODE:''"

definition find_section :: "string \<Rightarrow> string \<Rightarrow> fault + string option" where
  "find_section content section_name =
     (case strstr content (start_marker section_name) of
        None \<Rightarrow> Inr None
      | Some i \<Rightarrow>
          (let at_marker = drop i content in
           case strstr at_marker ''---'' of
             None \<Rightarrow> Inr None
           | Some j \<Rightarrow>
               if length at_marker < j + 4 then Inl OutOfBounds
               else
                 (let start = drop (j + 4) at_marker;
                      exit_code = strstr start exit_code_marker;
                      end_pos = strstr start (end_marker section_name)
                  in case (if exit_code \<noteq> None \<and> (end_pos = None \<or> the exit_code < the end_pos)
                           then exit_code else end_pos) of
                       None \<Rightarrow> Inr None
                     | Some e \<Rightarrow> Inr (Some (rtrim_blank (take e start))))))"

text \<open>
  A layout of the content as the code reads it: the first start marker of the section, then
  the first \<open>---\<close> and one more character \<open>c\<close> that is stepped over unread, then the text
  \<open>body\<close> behind it, then the end marker or the \<open>EXIT_CODE\<close> sentinel, neither of which
  begins inside that text.  (When the sentinel follows the dashes directly, its newline is
  the character stepped over, and this text begins with \<open>EXIT_CODE\<close>.)
\<close>

definition section_layout ::
  "string \<Rightarrow> string \<Rightarrow> string \<Rightarrow> string \<Rightarrow> char \<Rightarrow> string \<Rightarrow> string \<Rightarrow> bool" where
  "section_layout content section_name pre gap c body rest \<longleftrightarrow>
     content = pre @ start_marker section_name @ gap @ ''---'' @ [c] @ body @ rest
     \<and> first_occurrence (start_marker section_name) content (length pre)
     \<and> first_occurrence ''---'' (drop (length pre) content) (length (start_marker section_name @ gap))
     \<and> (prefix (end_marker section_name) rest \<or> prefix exit_code_marker rest)
     \<and> (\<forall>j<length body. \<not> prefix (end_marker section_name) (drop j (body @ rest))
                           \<and> \<not> prefix exit_code_marker (drop j (body @ rest)))"

subsection \<open>Properties of section extraction\<close>

lemma end_marker_Cons: "\<exists>m. end_marker section_name = CHR ''='' # m"
  by (simp add: end_marker_def snprintf_def)

lemma find_section_layout:
  assumes "section_layout content section_name pre gap c body rest"
  shows "find_section content section_name = Inr (Some (rtrim_blank body))"
proof -
  let ?M = "start_marker section_name" and ?E = "end_marker section_name"
  let ?X = "exit_code_marker" and ?s = "body @ rest"
  from assms have content: "content = pre @ ?M @ gap @ ''---'' @ [c] @ body @ rest"
    and fm: "first_occurrence ?M content (length pre)"
    and fd: "first_occurrence ''---'' (drop (length pre) content) (length (?M @ gap))"
    and tm: "prefix ?E rest \<or> prefix ?X rest"
    and early: "\<forall>j<length body. \<not> prefix ?E (drop j ?s) \<and> \<not> prefix ?X (drop j ?s)"
    unfolding section_layout_def by blast+
  have m: "strstr content ?M = Some (length pre)"
    using fm by (simp add: strstr_Some_iff)
  have at: "drop (length pre) content = ?M @ gap @ ''---'' @ [c] @ body @ rest"
    by (simp add: content)
  have d: "strstr (drop (length pre) content) ''---'' = Some (length (?M @ gap))"
    using fd by (simp add: strstr_Some_iff)
  have len: "\<not> length (drop (length pre) content) < length (?M @ gap) + 4"
    by (simp add: content)
  have start: "drop (length (?M @ gap) + 4) (drop (length pre) content) = ?s"
    by (simp add: at)
  obtain m' where E: "?E = CHR ''='' # m'" using end_marker_Cons by blast
  have X: "?X = nl # ''EXIT_CODE:''" by (simp add: exit_code_marker_def)
  have excl: "\<not> (prefix ?E rest \<and> prefix ?X rest)"
    by (cases rest) (auto simp: E X nl_def)
  have ge: "length body \<le> k" if "prefix ?E (drop k ?s) \<or> prefix ?X (drop k ?s)" for k
    using that early by (meson not_le)
  have chosen:
    "(if strstr ?s ?X \<noteq> None \<and> (strstr ?s ?E = None \<or> the (strstr ?s ?X) < the (strstr ?s ?E))
      then strstr ?s ?X else strstr ?s ?E) = Some (length body)"
  proof (cases "prefix ?E rest")
    case True
    then have e: "strstr ?s ?E = Some (length body)"
      using early by (simp add: strstr_Some_iff first_occurrence_def)
    have "\<not> the (strstr ?s ?X) < length body" if "strstr ?s ?X \<noteq> None"
    proof -
      from that obtain k where k: "strstr ?s ?X = Some k" by auto
      then have "prefix ?X (drop k ?s)" by (simp add: strstr_Some_iff first_occurrence_def)
      then have "length body \<le> k" using ge by blast
      with k show ?thesis by simp
    qed
    with e show ?thesis by auto
  next
    case False
    with tm have px: "prefix ?X rest" by simp
    then have x: "strstr ?s ?X = Some (length body)"
      using early by (simp add: strstr_Some_iff first_occurrence_def)
    have "length body < k" if k: "strstr ?s ?E = Some k" for k
    proof -
      from k have pk: "prefix ?E (drop k ?s)" and kl: "k \<le> length ?s"
        by (simp_all add: strstr_Some_iff first_occurrence_def)
      then have "length body \<le> k" using ge by blast
      moreover have "k \<noteq> length body"
      proof
        assume "k = length body"
        with pk have "prefix ?E rest" by simp
        with False show False by simp
      qed
      ultimately show ?thesis by simp
    qed
    with x show ?thesis by (cases "strstr ?s ?E") auto
  qed
  show ?thesis
    unfolding find_section_def m option.case Let_def d start chosen
    using len by simp
qed

lemma find_section_absent:
  "no_occurrence (start_marker section_name) content \<Longrightarrow> find_section content section_name = Inr None"
  by (simp add: find_section_def strstr_None_iff [symmetric])

lemma rtrim_blank_decomp:
  "\<exists>ws. s = rtrim_blank s @ ws \<and> list_all is_blank ws
     \<and> (rtrim_blank s = [] \<or> \<not> is_blank (last (rtrim_blank s)))"
proof -
  have "rev s = takeWhile is_blank (rev s) @ dropWhile is_blank (rev s)" by simp
  then have "s = rev (dropWhile is_blank (rev s)) @ rev (takeWhile is_blank (rev s))"
    by (metis rev_append rev_rev_ident)
  moreover have "list_all is_blank (rev (takeWhile is_blank (rev s)))"
    by (simp add: list_all_iff) (meson set_takeWhileD)
  moreover have "dropWhile is_blank (rev s) = [] \<or> \<not> is_blank (hd (dropWhile is_blank (rev s)))"
    using hd_dropWhile by blast
  then have "rtrim_blank s = [] \<or> \<not> is_blank (last (rtrim_blank s))"
    by (auto simp: rtrim_blank_def last_rev)
  ultimately show ?thesis unfolding rtrim_blank_def by blast
qed

lemma section_layoutI:
  assumes "content = pre @ start_marker section_name @ gap @ ''---'' @ [c] @ body @ rest"
    and "strstr content (start_marker section_name) = Some (length pre)"
    and "strstr (drop (length pre) content) ''---'' = Some (length (start_marker section_name @ gap))"
    and "prefix (end_marker section_name) rest \<or> prefix exit_code_marker rest"
    and "case strstr (body @ rest) (end_marker section_name) of None \<Rightarrow> True | Some k \<Rightarrow> length body \<le> k"
    and "case strstr (body @ rest) exit_code_marker of None \<Rightarrow> True | Some k \<Rightarrow> length body \<le> k"
  shows "section_layout content section_name pre gap c body rest"
proof -
  have none: "\<not> prefix n (drop j (body @ rest))"
    if "case strstr (body @ rest) n of None \<Rightarrow> True | Some k \<Rightarrow> length body \<le> k"
      and "j < length body" for n j
  proof (cases "strstr (body @ rest) n")
    case None
    then have "no_occurrence n (body @ rest)" by (simp add: strstr_None_iff)
    then have "\<forall>i\<le>length (body @ rest). \<not> prefix n (drop i (body @ rest))"
      unfolding no_occurrence_def .
    moreover have "j \<le> length (body @ rest)" using that(2) by simp
    ultimately show ?thesis by blast
  next
    case (Some k)
    with that have "j < k" by simp
    moreover from Some have "first_occurrence n (body @ rest) k" by (simp add: strstr_Some_iff)
    ultimately show ?thesis unfolding first_occurrence_def by blast
  qed
  show ?thesis
    unfolding section_layout_def
    using assms(1-4) none [OF assms(5)] none [OF assms(6)]
    by (simp add: strstr_Some_iff)
qed

lemma start_marker_full:
  "length section_name \<le> 228 \<Longrightarrow>
     start_marker section_name = ''=== TSIM_SECTION_START:'' @ section_name @ '' ===''"
  by (simp add: start_marker_def snprintf_def)

lemma end_marker_full:
  "length section_name \<le> 230 \<Longrightarrow>
     end_marker section_name = ''=== TSIM_SECTION_END:'' @ section_name @ '' ===''"
  by (simp add: end_marker_def snprintf_def)

text \<open>
  For content in the layout above, extraction returns the text behind the 4-byte step, up to
  whichever of the end marker and the \<open>EXIT_CODE\<close> sentinel comes first, with trailing
  spaces, tabs, newlines and carriage returns removed.
\<close>

lemma find_section_policy_rules:
  "find_section
     (''junk'' @ [nl] @ ''=== TSIM_SECTION_START:policy_rules ==='' @ [nl] @ ''---'' @ [nl]
        @ ''0: from all lookup local'' @ [CHR '' '', nl, nl]
        @ ''EXIT_CODE:0'' @ [nl] @ ''=== TSIM_SECTION_END:policy_rules ==='' @ [nl])
     ''policy_rules'' = Inr (Some ''0: from all lookup local'')"
proof -
  let ?pre = "''junk'' @ [nl]" and ?gap = "[nl]"
  let ?body = "''0: from all lookup local'' @ [CHR '' '', nl]"
  let ?rest = "[nl] @ ''EXIT_CODE:0'' @ [nl] @ ''=== TSIM_SECTION_END:policy_rules ==='' @ [nl]"
  let ?content = "?pre @ start_marker ''policy_rules'' @ ?gap @ ''---'' @ [nl] @ ?body @ ?rest"
  have lay: "section_layout ?content ''policy_rules'' ?pre ?gap nl ?body ?rest"
    by (rule section_layoutI)
       (simp_all add: start_marker_def end_marker_def exit_code_marker_def snprintf_def nl_def)
  have t: "rtrim_blank ?body = ''0: from all lookup local''"
    by (simp add: rtrim_blank_def is_blank_def nl_def)
  from find_section_layout [OF lay] t
  show ?thesis by (simp add: start_marker_def snprintf_def)
qed

text \<open>
  Claim C5 at a section whose body is empty: the start marker, the line of three dashes,
  the \<open>EXIT_CODE\<close> line and the end marker.  The claim has the body end at the first
  sentinel (a newline followed by \<open>EXIT_CODE:\<close>), which here follows the dashes directly,
  and so has the empty, present body.  The code steps 4 bytes on from the dashes
  (\<^verbatim>\<open>start += 4\<close>, to skip the dashes and their newline) and with that over the newline that
  begins the sentinel; the search for the sentinel
  (\<^verbatim>\<open>/* Find EXIT_CODE line first, then the end marker */\<close>) starts behind it and finds
  nothing, the end marker ends the body, and the \<open>EXIT_CODE\<close> line is returned as the body
  of the section.
\<close>

theorem find_section_empty_body_keeps_exit_code:
  "find_section
     (''=== TSIM_SECTION_START:iptables_save ==='' @ [nl] @ ''---'' @ [nl]
        @ ''EXIT_CODE:0'' @ [nl] @ ''=== TSIM_SECTION_END:iptables_save ==='' @ [nl])
     ''iptables_save'' = Inr (Some ''EXIT_CODE:0'')"
  by (simp add: find_section_def start_marker_def end_marker_def exit_code_marker_def
        snprintf_def rtrim_blank_def is_blank_def nl_def Let_def)

text \<open>
  With one line in the body the sentinel is found, and the body is that line.
\<close>

lemma find_section_one_line_body:
  "find_section
     (''=== TSIM_SECTION_START:iptables_save ==='' @ [nl] @ ''---'' @ [nl]
        @ ''*filter'' @ [nl] @ ''EXIT_CODE:0'' @ [nl]
        @ ''=== TSIM_SECTION_END:iptables_save ==='' @ [nl])
     ''iptables_save'' = Inr (Some ''*filter'')"
  by (simp add: find_section_def start_marker_def end_marker_def exit_code_marker_def
        snprintf_def rtrim_blank_def is_blank_def nl_def Let_def)

section \<open>Facts parser: interfaces (router\_facts\_loader.c, parse\_interfaces\_section)\<close>

text \<open>
  \<^verbatim>\<open>address_t\<close> and \<^verbatim>\<open>interface_t\<close>; the counted arrays are lists, the \<^verbatim>\<open>int\<close> flags
  \<^verbatim>\<open>up\<close> and \<^verbatim>\<open>secondary\<close> are booleans. Allocation is taken to succeed.
\<close>

record address_t =
  addr_ip :: string
  addr_broadcast :: "string option"
  addr_scope :: "string option"
  addr_prefixlen :: int
  addr_secondary :: bool

record interface_t =
  if_name :: string
  if_mac :: "string option"
  if_mtu :: int
  if_up :: bool
  if_addresses :: "address_t list"

definition MAX_NAME_LEN :: nat where "MAX_NAME_LEN = 64"
definition MAX_IP_LEN :: nat where "MAX_IP_LEN = 46"

text \<open>
  The state of the line loop: the interfaces of the router so far, and whether
  \<^verbatim>\<open>current_iface\<close> is set; when it is, it points to the interface added last.
\<close>

record parse_state =
  ps_interfaces :: "interface_t list"
  ps_have_current :: bool

definition update_current :: "(interface_t \<Rightarrow> interface_t) \<Rightarrow> parse_state \<Rightarrow> parse_state" where
  "update_current f st =
     st\<lparr> ps_interfaces := butlast (ps_interfaces st) @ [f (last (ps_interfaces st))] \<rparr>"

text \<open>
  A line starting with a digit: the name runs from behind the first colon (white space
  skipped) to the next \<open>:\<close> or \<open>@\<close>; \<open>UP\<close> is looked for between \<open><\<close> and \<open>>\<close>; then
  \<open>mtu\<close> and \<open>state DOWN\<close> in what follows.
\<close>

definition parse_header :: "string \<Rightarrow> parse_state \<Rightarrow> parse_state" where
  "parse_header line st =
     (if CHR '':'' \<notin> set line then st
      else
        (let name_start = dropWhile isspace (tl (dropWhile (\<lambda>c. c \<noteq> CHR '':'') line));
             iface_name = takeWhile (\<lambda>c. c \<noteq> CHR '':'' \<and> c \<noteq> CHR ''@'') name_start;
             name_end = dropWhile (\<lambda>c. c \<noteq> CHR '':'' \<and> c \<noteq> CHR ''@'') name_start
         in if name_end = [] then st
            else if \<not> length iface_name < MAX_NAME_LEN then st
            else
              (let flags_start = dropWhile (\<lambda>c. c \<noteq> CHR ''<'') name_end;
                   flags_end = dropWhile (\<lambda>c. c \<noteq> CHR ''>'') flags_start;
                   has_flags = (flags_start \<noteq> [] \<and> flags_end \<noteq> []);
                   flags_section = takeWhile (\<lambda>c. c \<noteq> CHR ''>'') (tl flags_start);
                   up0 = (has_flags \<and> contains flags_section ''UP'');
                   props = (if flags_end \<noteq> [] then tl flags_end else tl name_end);
                   mtu = (case strstr props ''mtu '' of
                            Some k \<Rightarrow> atoi (drop (k + 4) props)
                          | None \<Rightarrow> 1500);
                   up1 = (case strstr props ''state '' of
                            Some k \<Rightarrow> if take 4 (drop (k + 6) props) = ''DOWN'' then False else up0
                          | None \<Rightarrow> up0)
               in \<lparr> ps_interfaces = ps_interfaces st @
                      [\<lparr> if_name = iface_name, if_mac = None, if_mtu = mtu, if_up = up1,
                         if_addresses = [] \<rparr>],
                    ps_have_current = True \<rparr>)))"

text \<open>
  \<^verbatim>\<open>link/ether\<close>: the MAC is read with \<^verbatim>\<open>%17s\<close> from 11 bytes behind the start of
  \<open>link/ether\<close>.
\<close>

definition parse_link :: "string \<Rightarrow> parse_state \<Rightarrow> fault + parse_state" where
  "parse_link line st =
     (let trimmed = dropWhile isspace line in
      case strstr trimmed ''link/ether'' of
        Some k \<Rightarrow>
          if length trimmed < k + 11 then Inl OutOfBounds
          else Inr (update_current
                      (\<lambda>i. i\<lparr> if_mac := Some (take 17 (scan_s (drop (k + 11) trimmed))) \<rparr>) st)
      | None \<Rightarrow> Inr st)"

definition parse_scope :: "string \<Rightarrow> string" where
  "parse_scope text =
     (case strstr text ''scope '' of
        Some k \<Rightarrow>
          (let scope_str = take 31 (scan_s (drop (k + 6) text))
           in if scope_str \<noteq> [] then scope_str else ''global'')
      | None \<Rightarrow> ''global'')"

definition prefixlen_of :: "string \<Rightarrow> int" where
  "prefixlen_of ip_addr =
     (if CHR ''/'' \<in> set ip_addr then atoi (tl (dropWhile (\<lambda>c. c \<noteq> CHR ''/'') ip_addr)) else 0)"

text \<open>
  \<^verbatim>\<open>inet\<close> and \<^verbatim>\<open>inet6\<close> lines: the address is read with \<^verbatim>\<open>%s\<close> into
  \<^verbatim>\<open>ip_addr[MAX_IP_LEN]\<close> (a longer token overruns the buffer). An IPv4 address needs a
  \<open>/\<close>; an IPv6 address is skipped when \<^verbatim>\<open>strstr(ip_addr, "fe80:")\<close> finds something.
\<close>

definition parse_inet :: "string \<Rightarrow> parse_state \<Rightarrow> fault + parse_state" where
  "parse_inet line st =
     (let trimmed = dropWhile isspace line in
      case strstr trimmed ''inet '' of
        None \<Rightarrow> Inr st
      | Some k \<Rightarrow>
          (let inet = drop (k + 5) trimmed; ip_addr = scan_s inet in
           if ip_addr = [] then Inr st
           else if \<not> length ip_addr < MAX_IP_LEN then Inl OutOfBounds
           else if CHR ''/'' \<notin> set ip_addr then Inr st
           else
             (let brd_addr = (case strstr inet ''brd '' of
                                Some b \<Rightarrow> scan_s (drop (b + 4) inet) | None \<Rightarrow> [])
              in if \<not> length brd_addr < MAX_IP_LEN then Inl OutOfBounds
                 else Inr (update_current
                        (\<lambda>i. i\<lparr> if_addresses := if_addresses i @
                            [\<lparr> addr_ip = ip_addr,
                               addr_broadcast = (if brd_addr = [] then None else Some brd_addr),
                               addr_scope = Some (parse_scope inet),
                               addr_prefixlen = prefixlen_of ip_addr,
                               addr_secondary = contains inet ''secondary'' \<rparr>] \<rparr>) st))))"

definition parse_inet6 :: "string \<Rightarrow> parse_state \<Rightarrow> fault + parse_state" where
  "parse_inet6 line st =
     (let trimmed = dropWhile isspace line in
      case strstr trimmed ''inet6 '' of
        None \<Rightarrow> Inr st
      | Some k \<Rightarrow>
          (let inet6 = drop (k + 6) trimmed; ip_addr = scan_s inet6 in
           if ip_addr = [] then Inr st
           else if \<not> length ip_addr < MAX_IP_LEN then Inl OutOfBounds
           else if contains ip_addr ''fe80:'' then Inr st
           else Inr (update_current
                  (\<lambda>i. i\<lparr> if_addresses := if_addresses i @
                      [\<lparr> addr_ip = ip_addr,
                         addr_broadcast = None,
                         addr_scope = Some (parse_scope inet6),
                         addr_prefixlen = prefixlen_of ip_addr,
                         addr_secondary = False \<rparr>] \<rparr>) st)))"

definition parse_interface_line :: "string \<Rightarrow> parse_state \<Rightarrow> fault + parse_state" where
  "parse_interface_line line st =
     (if line = [] \<or> contains line ''EXIT_CODE:'' then Inr st
      else if is_digit (hd line) then Inr (parse_header line st)
      else if ps_have_current st \<and> contains line ''link/'' then parse_link line st
      else if ps_have_current st \<and> contains line ''inet '' then parse_inet line st
      else if ps_have_current st \<and> contains line ''inet6 '' then parse_inet6 line st
      else Inr st)"

fun parse_interface_lines :: "string list \<Rightarrow> parse_state \<Rightarrow> fault + parse_state" where
  "parse_interface_lines [] st = Inr st"
| "parse_interface_lines (line # rest) st =
     (case parse_interface_line line st of
        Inl f \<Rightarrow> Inl f
      | Inr st' \<Rightarrow> parse_interface_lines rest st')"

definition parse_interfaces_section ::
  "string \<Rightarrow> interface_t list \<Rightarrow> fault + int \<times> interface_t list" where
  "parse_interfaces_section content ifaces =
     (case find_section content ''interfaces'' of
        Inl f \<Rightarrow> Inl f
      | Inr None \<Rightarrow> Inr (-1, ifaces)
      | Inr (Some section) \<Rightarrow>
          (case parse_interface_lines (strtok_all nl section)
                  \<lparr> ps_interfaces = ifaces, ps_have_current = False \<rparr> of
             Inl f \<Rightarrow> Inl f
           | Inr st \<Rightarrow> Inr (0, ps_interfaces st)))"

subsection \<open>Properties of the interface parser\<close>

lemma prefix_contains: "prefix needle s \<Longrightarrow> contains s needle"
  by (cases s) (auto simp: contains_def)

lemma parse_inet6_skipped:
  assumes "strstr (dropWhile isspace line) ''inet6 '' = Some k"
    and "contains (scan_s (drop (k + 6) (dropWhile isspace line))) ''fe80:''"
    and "length (scan_s (drop (k + 6) (dropWhile isspace line))) < MAX_IP_LEN"
  shows "parse_inet6 line st = Inr st"
  using assms by (simp add: parse_inet6_def Let_def)

lemma parse_inet6_appended:
  assumes "strstr (dropWhile isspace line) ''inet6 '' = Some k"
    and "ip_addr = scan_s (drop (k + 6) (dropWhile isspace line))"
    and "ip_addr \<noteq> []" and "length ip_addr < MAX_IP_LEN"
    and "\<not> contains ip_addr ''fe80:''"
  shows "parse_inet6 line st =
     Inr (update_current
            (\<lambda>i. i\<lparr> if_addresses := if_addresses i @
                [\<lparr> addr_ip = ip_addr, addr_broadcast = None,
                   addr_scope = Some (parse_scope (drop (k + 6) (dropWhile isspace line))),
                   addr_prefixlen = prefixlen_of ip_addr, addr_secondary = False \<rparr>] \<rparr>) st)"
  using assms by (simp add: parse_inet6_def Let_def)

lemmas facts_eval = find_section_def start_marker_def end_marker_def snprintf_def nl_def Let_def
  rtrim_blank_def is_blank_def exit_code_marker_def strtok_all_Nil strtok_all_Cons contains_def
  isspace_def

lemmas interfaces_eval = parse_interfaces_section_def parse_interface_line_def parse_header_def
  parse_inet6_def parse_inet_def parse_link_def is_digit_def atoi_def scan_s_def
  dec_value_def digit_val_def MAX_NAME_LEN_def MAX_IP_LEN_def update_current_def
  parse_scope_def prefixlen_of_def

text \<open>
  Claim C6 at an interfaces section with the line
  \<^verbatim>\<open>inet6 2001:db8:fe80::1/64 scope global\<close> under \<open>eth0\<close>: the address does not start
  with \<open>fe80:\<close> (it is a global address), so the claim has it appended; the code finds
  \<open>fe80:\<close> inside it and drops it, leaving \<open>eth0\<close> without addresses.
\<close>

theorem parse_interfaces_section_drops_inner_fe80:
  "parse_interfaces_section
     (''=== TSIM_SECTION_START:interfaces ==='' @ [nl] @ ''---'' @ [nl]
        @ ''2: eth0: <BROADCAST,UP> mtu 1500 state UP'' @ [nl]
        @ ''    inet6 2001:db8:fe80::1/64 scope global'' @ [nl]
        @ ''EXIT_CODE:0'' @ [nl] @ ''=== TSIM_SECTION_END:interfaces ==='' @ [nl]) []
   = Inr (0, [\<lparr> if_name = ''eth0'', if_mac = None, if_mtu = 1500, if_up = True,
                  if_addresses = [] \<rparr>])"
  by (simp add: interfaces_eval facts_eval)

text \<open>The same section with an address that has no \<open>fe80:\<close> in it keeps the address.\<close>

lemma parse_interfaces_section_keeps_global:
  "parse_interfaces_section
     (''=== TSIM_SECTION_START:interfaces ==='' @ [nl] @ ''---'' @ [nl]
        @ ''2: eth0: <BROADCAST,UP> mtu 1500 state UP'' @ [nl]
        @ ''    inet6 2001:db8::1/64 scope global'' @ [nl]
        @ ''EXIT_CODE:0'' @ [nl] @ ''=== TSIM_SECTION_END:interfaces ==='' @ [nl]) []
   = Inr (0, [\<lparr> if_name = ''eth0'', if_mac = None, if_mtu = 1500, if_up = True,
                  if_addresses = [\<lparr> addr_ip = ''2001:db8::1/64'', addr_broadcast = None,
                     addr_scope = Some ''global'', addr_prefixlen = 64,
                     addr_secondary = False \<rparr>] \<rparr>])"
  by (simp add: interfaces_eval facts_eval)

section \<open>Facts parser: loading a router (router\_facts\_loader.c, load\_router\_facts)\<close>

text \<open>
  \<^verbatim>\<open>router_t\<close> with the fields the hidden-mesh engine reads. The parsed policy rules
  (\<^verbatim>\<open>parse_rules_section\<close>) are left out of the model.
\<close>

record router_t =
  rt_name :: string
  rt_interfaces :: "interface_t list"
  rt_raw_route_commands :: "string list"
  rt_iptables_save :: save_block
  rt_ipset_save :: save_block

text \<open>
  The line loop inside \<^verbatim>\<open>load_router_facts\<close>: a line that is empty or contains
  \<open>EXIT_CODE:\<close> is skipped; leading white space is skipped and trailing white space cut
  (never the first character); what is left, if anything, becomes a command formatted
  into \<^verbatim>\<open>cmd[1024]\<close>.
\<close>

definition trim_route_line :: "string \<Rightarrow> string" where
  "trim_route_line line =
     (case dropWhile isspace line of
        [] \<Rightarrow> []
      | c # cs \<Rightarrow> c # rev (dropWhile isspace (rev cs)))"

definition route_command :: "string \<Rightarrow> string \<Rightarrow> string" where
  "route_command table_name line =
     (if table_name \<noteq> ''main''
      then snprintf 1024 (''ip route add table '' @ table_name @ '' '' @ line)
      else snprintf 1024 (''ip route add '' @ line))"

fun route_lines :: "string \<Rightarrow> string list \<Rightarrow> string list \<Rightarrow> string list" where
  "route_lines table_name [] cmds = cmds"
| "route_lines table_name (line # rest) cmds =
     (if line = [] \<or> contains line ''EXIT_CODE:'' then route_lines table_name rest cmds
      else if trim_route_line line = [] then route_lines table_name rest cmds
      else route_lines table_name rest (cmds @ [route_command table_name (trim_route_line line)]))"

definition table_commands :: "string \<Rightarrow> string \<Rightarrow> string list \<Rightarrow> fault + string list" where
  "table_commands content table_name cmds =
     (case find_section content (snprintf 256 (''routing_table_'' @ table_name)) of
        Inl f \<Rightarrow> Inl f
      | Inr None \<Rightarrow> Inr cmds
      | Inr (Some section) \<Rightarrow> Inr (route_lines table_name (strtok_all nl section) cmds))"

text \<open>
  The scan \<^verbatim>\<open>while ((pos = strstr(pos, search)) != NULL)\<close>: the table name is what
  follows the search text up to a space or \<open>=\<close> (at most 255 bytes); the section is then
  looked up by name in the whole content; the scan goes on one byte behind the search
  text.
\<close>

definition routing_search :: string where
  "routing_search = ''=== TSIM_SECTION_START:routing_table_''"

function scan_routing_tables :: "string \<Rightarrow> string \<Rightarrow> string list \<Rightarrow> fault + string list" where
  "scan_routing_tables content pos cmds =
     (case strstr pos routing_search of
        None \<Rightarrow> Inr cmds
      | Some i \<Rightarrow>
          (let after = drop (i + length routing_search) pos;
               table_name = take 255 (takeWhile (\<lambda>c. c \<noteq> CHR '' '' \<and> c \<noteq> CHR ''='') after)
           in case (if table_name \<noteq> [] then table_commands content table_name cmds else Inr cmds) of
                Inl f \<Rightarrow> Inl f
              | Inr cmds' \<Rightarrow>
                  if after = [] then Inl OutOfBounds
                  else scan_routing_tables content (tl after) cmds'))"
  by pat_completeness auto
termination
proof (relation "measure (\<lambda>(content, pos, cmds). length pos)")
  show "wf (measure (\<lambda>(content, pos, cmds). length pos))" by simp
next
  fix content pos :: string and cmds :: "string list" and i after table_name x cmds'
  assume "strstr pos routing_search = Some i"
    and "after = drop (i + length routing_search) pos"
    and "after \<noteq> []"
  then show "((content, tl after, cmds'), (content, pos, cmds))
               \<in> measure (\<lambda>(content, pos, cmds). length pos)"
    by (cases after) (auto simp: routing_search_def)
qed

declare scan_routing_tables.simps [simp del]

definition extract_block :: "string \<Rightarrow> string \<Rightarrow> fault + save_block" where
  "extract_block section_name content =
     (case find_section content section_name of
        Inl f \<Rightarrow> Inl f
      | Inr (Some section) \<Rightarrow> Inr \<lparr> raw_content = Some section, content_size = length section \<rparr>
      | Inr None \<Rightarrow> Inr \<lparr> raw_content = None, content_size = 0 \<rparr>)"

definition load_router_facts :: "string option \<Rightarrow> router_t \<Rightarrow> fault + int \<times> router_t" where
  "load_router_facts file router =
     (case file of
        None \<Rightarrow> Inr (-1, router)
      | Some content \<Rightarrow>
          (case parse_interfaces_section content (rt_interfaces router) of
             Inl f \<Rightarrow> Inl f
           | Inr (_, ifaces) \<Rightarrow>
               (case scan_routing_tables content content (rt_raw_route_commands router) of
                  Inl f \<Rightarrow> Inl f
                | Inr cmds \<Rightarrow>
                    (case extract_block ''iptables_save'' content of
                       Inl f \<Rightarrow> Inl f
                     | Inr ipt \<Rightarrow>
                         (case extract_block ''ipset_save'' content of
                            Inl f \<Rightarrow> Inl f
                          | Inr ips \<Rightarrow>
                              Inr (0, router\<lparr> rt_interfaces := ifaces, rt_raw_route_commands := cmds,
                                              rt_iptables_save := ipt, rt_ipset_save := ips \<rparr>))))))"

definition create_router :: "string \<Rightarrow> router_t" where
  "create_router n =
     \<lparr> rt_name = n, rt_interfaces = [], rt_raw_route_commands = [],
       rt_iptables_save = \<lparr> raw_content = None, content_size = 0 \<rparr>,
       rt_ipset_save = \<lparr> raw_content = None, content_size = 0 \<rparr> \<rparr>"

subsection \<open>Properties of loading\<close>

text \<open>
  Claim C1 at a facts file whose only section is the main table
  \<^verbatim>\<open>routing_table\<close> with the line \<^verbatim>\<open>default via 10.1.1.1 dev eth0\<close>: the claim has
  \<^verbatim>\<open>ip route add default via 10.1.1.1 dev eth0\<close> appended; the scan looks for
  \<^verbatim>\<open>routing_table_\<close> only, finds nothing, and the command list stays empty.
\<close>

theorem load_router_facts_misses_main_table:
  "load_router_facts
     (Some (''=== TSIM_SECTION_START:routing_table ==='' @ [nl] @ ''---'' @ [nl]
        @ ''default via 10.1.1.1 dev eth0'' @ [nl]
        @ ''EXIT_CODE:0'' @ [nl]
        @ ''=== TSIM_SECTION_END:routing_table ==='' @ [nl]))
     (create_router ''r1'')
   = Inr (0, create_router ''r1'')
   \<and> rt_raw_route_commands (create_router ''r1'') = []"
  by (simp add: load_router_facts_def create_router_def
        parse_interfaces_section_def scan_routing_tables.simps routing_search_def
        extract_block_def facts_eval)

text \<open>A named table is loaded, with \<open>table <name>\<close> in front of the line.\<close>

lemma scan_routing_tables_table_200:
  "scan_routing_tables
     (''=== TSIM_SECTION_START:routing_table_200 ==='' @ [nl] @ ''---'' @ [nl]
        @ ''10.9.0.0/16 via 10.1.1.1 dev eth0'' @ [nl]
        @ ''EXIT_CODE:0'' @ [nl]
        @ ''=== TSIM_SECTION_END:routing_table_200 ==='' @ [nl])
     (''=== TSIM_SECTION_START:routing_table_200 ==='' @ [nl] @ ''---'' @ [nl]
        @ ''10.9.0.0/16 via 10.1.1.1 dev eth0'' @ [nl]
        @ ''EXIT_CODE:0'' @ [nl]
        @ ''=== TSIM_SECTION_END:routing_table_200 ==='' @ [nl]) []
   = Inr [''ip route add table 200 10.9.0.0/16 via 10.1.1.1 dev eth0'']"
  by (simp add: scan_routing_tables.simps routing_search_def
        table_commands_def route_command_def trim_route_line_def facts_eval)

text \<open>
  The saved packet filter of a router whose \<^verbatim>\<open>iptables_save\<close> section is empty: the block
  holds the \<open>EXIT_CODE\<close> line, so it is not skipped as blank when the filters are restored.
\<close>

lemma extract_block_empty_section:
  "extract_block ''iptables_save''
     (''=== TSIM_SECTION_START:iptables_save ==='' @ [nl] @ ''---'' @ [nl]
        @ ''EXIT_CODE:0'' @ [nl] @ ''=== TSIM_SECTION_END:iptables_save ==='' @ [nl])
     = Inr \<lparr> raw_content = Some ''EXIT_CODE:0'', content_size = 11 \<rparr>
   \<and> \<not> nothing_to_restore (Some \<lparr> raw_content = Some ''EXIT_CODE:0'', content_size = 11 \<rparr>)"
  by (simp add: extract_block_def find_section_def start_marker_def end_marker_def
        exit_code_marker_def snprintf_def rtrim_blank_def is_blank_def nl_def Let_def
        nothing_to_restore_def)

section \<open>Shared registry (shared\_registry.h)\<close>

text \<open>
  The registry is one struct in shared memory. Its three tables are modelled as total
  functions from the index; the code reads and writes them below the capacities only
  (or the step is \<open>OutOfBounds\<close>). The \<^verbatim>\<open>int active\<close> and \<^verbatim>\<open>created\<close> flags are
  booleans. A name field holds the text before its first NUL; \<^verbatim>\<open>strncpy\<close> of at most
  \<open>n\<close> bytes into a zeroed field leaves the first \<open>n\<close> bytes of the source there.
  \<^verbatim>\<open>MAX_NAME_LEN\<close> is 64 where the engine includes the header (router\_facts\_loader.h
  defines it first).
\<close>

definition MAX_ROUTERS :: nat where "MAX_ROUTERS = 1024"
definition MAX_INTERFACES_PER_ROUTER :: nat where "MAX_INTERFACES_PER_ROUTER = 64"
definition MAX_BRIDGES :: nat where "MAX_BRIDGES = 2048"
definition MAX_CODE_LEN :: nat where "MAX_CODE_LEN = 8"

record shm_router_entry =
  re_router_name :: string
  re_router_code :: string
  re_active :: bool

record shm_interface_entry =
  ie_router_code :: string
  ie_interface_name :: string
  ie_interface_code :: string
  ie_active :: bool

record shm_bridge_entry =
  be_bridge_name :: string
  be_subnet :: string
  be_created :: bool
  be_active :: bool

record shm_registry =
  reg_version :: int
  reg_router_count :: int
  reg_interface_count :: int
  reg_bridge_count :: int
  reg_routers :: "nat \<Rightarrow> shm_router_entry"
  reg_interfaces :: "nat \<Rightarrow> shm_interface_entry"
  reg_bridges :: "nat \<Rightarrow> shm_bridge_entry"
  reg_next_router_code :: int
  reg_next_interface_codes :: "nat \<Rightarrow> int"

definition clear_shared_registry :: shm_registry where
  "clear_shared_registry =
     \<lparr> reg_version = 1, reg_router_count = 0, reg_interface_count = 0, reg_bridge_count = 0,
       reg_routers = (\<lambda>_. \<lparr> re_router_name = [], re_router_code = [], re_active = False \<rparr>),
       reg_interfaces = (\<lambda>_. \<lparr> ie_router_code = [], ie_interface_name = [],
                                ie_interface_code = [], ie_active = False \<rparr>),
       reg_bridges = (\<lambda>_. \<lparr> be_bridge_name = [], be_subnet = [], be_created = False,
                             be_active = False \<rparr>),
       reg_next_router_code = 0,
       reg_next_interface_codes = (\<lambda>_. 0) \<rparr>"

function first_index :: "nat \<Rightarrow> nat \<Rightarrow> (nat \<Rightarrow> bool) \<Rightarrow> nat option" where
  "first_index i n P = (if i < n then (if P i then Some i else first_index (Suc i) n P) else None)"
  by pat_completeness auto
termination
  by (relation "measure (\<lambda>(i, n, P). n - i)") auto

declare first_index.simps [simp del]

definition get_router_code_shm :: "shm_registry \<Rightarrow> string \<Rightarrow> string option \<times> shm_registry" where
  "get_router_code_shm reg router_name =
     (case first_index 0 (min MAX_ROUTERS (nat (reg_router_count reg + 10)))
             (\<lambda>i. re_active (reg_routers reg i) \<and> re_router_name (reg_routers reg i) = router_name) of
        Some i \<Rightarrow> (Some (re_router_code (reg_routers reg i)), reg)
      | None \<Rightarrow>
          if reg_router_count reg \<ge> int MAX_ROUTERS then (None, reg)
          else
            (case first_index 0 MAX_ROUTERS (\<lambda>i. \<not> re_active (reg_routers reg i)) of
               None \<Rightarrow> (None, reg)
             | Some i \<Rightarrow>
                 (let code = snprintf MAX_CODE_LEN (''r'' @ fmt_0d 3 (reg_next_router_code reg))
                  in (Some code,
                      reg\<lparr> reg_routers := (reg_routers reg)
                               (i := \<lparr> re_router_name = take (MAX_NAME_LEN - 1) router_name,
                                       re_router_code = code, re_active = True \<rparr>),
                           reg_next_router_code := reg_next_router_code reg + 1,
                           reg_router_count := reg_router_count reg + 1 \<rparr>))))"

definition get_interface_code_shm ::
  "shm_registry \<Rightarrow> string \<Rightarrow> string \<Rightarrow> fault + string option \<times> shm_registry" where
  "get_interface_code_shm reg router_code interface_name =
     (if router_code \<noteq> [] \<and> hd router_code = CHR ''r''
      then
        (let router_idx = atoi (tl router_code) in
         if router_idx \<ge> int MAX_ROUTERS then Inr (None, reg)
         else if router_idx = -1 then Inr (None, reg)
         else if router_idx < 0 then Inl OutOfBounds
         else
           (let base = nat router_idx * MAX_INTERFACES_PER_ROUTER in
            case first_index 0 MAX_INTERFACES_PER_ROUTER
                   (\<lambda>i. ie_active (reg_interfaces reg (base + i)) \<and>
                        ie_router_code (reg_interfaces reg (base + i)) = router_code \<and>
                        ie_interface_name (reg_interfaces reg (base + i)) = interface_name) of
              Some i \<Rightarrow> Inr (Some (ie_interface_code (reg_interfaces reg (base + i))), reg)
            | None \<Rightarrow>
                (case first_index 0 MAX_INTERFACES_PER_ROUTER
                        (\<lambda>i. \<not> ie_active (reg_interfaces reg (base + i))) of
                   None \<Rightarrow> Inr (None, reg)
                 | Some i \<Rightarrow>
                     (let code = snprintf MAX_CODE_LEN
                                   (''i'' @ fmt_0d 3 (reg_next_interface_codes reg (nat router_idx)))
                      in Inr (Some code,
                           reg\<lparr> reg_interfaces := (reg_interfaces reg)
                                    (base + i :=
                                       \<lparr> ie_router_code = take (MAX_CODE_LEN - 1) router_code,
                                         ie_interface_name = take (MAX_NAME_LEN - 1) interface_name,
                                         ie_interface_code = code, ie_active = True \<rparr>),
                                reg_next_interface_codes := (reg_next_interface_codes reg)
                                    (nat router_idx := reg_next_interface_codes reg (nat router_idx) + 1),
                                reg_interface_count := reg_interface_count reg + 1 \<rparr>)))))
      else Inr (None, reg))"

definition register_bridge_shm :: "shm_registry \<Rightarrow> string \<Rightarrow> string \<Rightarrow> int \<times> shm_registry" where
  "register_bridge_shm reg bridge_name subnet =
     (case first_index 0 (min MAX_BRIDGES (nat (reg_bridge_count reg + 10)))
             (\<lambda>i. be_active (reg_bridges reg i) \<and> be_bridge_name (reg_bridges reg i) = bridge_name) of
        Some i \<Rightarrow> (int i, reg)
      | None \<Rightarrow>
          (case first_index 0 MAX_BRIDGES (\<lambda>i. \<not> be_active (reg_bridges reg i)) of
             None \<Rightarrow> (-1, reg)
           | Some i \<Rightarrow>
               (int i,
                reg\<lparr> reg_bridges := (reg_bridges reg)
                         (i := \<lparr> be_bridge_name = take 31 bridge_name, be_subnet = take 31 subnet,
                                 be_created = False, be_active = True \<rparr>),
                     reg_bridge_count := reg_bridge_count reg + 1 \<rparr>)))"

definition find_bridge_by_subnet :: "shm_registry \<Rightarrow> string \<Rightarrow> nat option" where
  "find_bridge_by_subnet reg subnet =
     first_index 0 MAX_BRIDGES
       (\<lambda>i. be_active (reg_bridges reg i) \<and> be_subnet (reg_bridges reg i) = subnet)"

subsection \<open>Invariants of the registry\<close>

lemma first_index_step:
  "i < n \<Longrightarrow> first_index i n P = (if P i then Some i else first_index (Suc i) n P)"
  "\<not> i < n \<Longrightarrow> first_index i n P = None"
  by (simp_all add: first_index.simps [of i n P])

lemmas registry_eval = get_router_code_shm_def get_interface_code_shm_def register_bridge_shm_def
  find_bridge_by_subnet_def clear_shared_registry_def MAX_ROUTERS_def MAX_INTERFACES_PER_ROUTER_def
  MAX_BRIDGES_def MAX_CODE_LEN_def MAX_NAME_LEN_def first_index_step snprintf_def Let_def dec_eval
  atoi_def isspace_def is_digit_def dec_value_def digit_val_def


lemma first_index_Some_iff:
  "first_index i n P = Some k \<longleftrightarrow> i \<le> k \<and> k < n \<and> P k \<and> (\<forall>j. i \<le> j \<and> j < k \<longrightarrow> \<not> P j)"
proof (induction i n P rule: first_index.induct)
  case (1 i n P)
  show ?case
  proof (cases "i < n")
    case False
    then show ?thesis by (auto simp: first_index_step)
  next
    case True
    show ?thesis
    proof (cases "P i")
      case True
      with \<open>i < n\<close> show ?thesis
        by (auto simp: first_index_step)
    next
      case False
      have "(Suc i \<le> k \<and> k < n \<and> P k \<and> (\<forall>j. Suc i \<le> j \<and> j < k \<longrightarrow> \<not> P j))
            \<longleftrightarrow> (i \<le> k \<and> k < n \<and> P k \<and> (\<forall>j. i \<le> j \<and> j < k \<longrightarrow> \<not> P j))"
        using False by (metis Suc_leD Suc_le_eq le_eq_less_or_eq)
      with 1 True False show ?thesis by (simp add: first_index_step)
    qed
  qed
qed

lemma first_index_None_iff:
  "first_index i n P = None \<longleftrightarrow> (\<forall>j. i \<le> j \<and> j < n \<longrightarrow> \<not> P j)"
proof (induction i n P rule: first_index.induct)
  case (1 i n P)
  show ?case
  proof (cases "i < n")
    case False
    then show ?thesis by (auto simp: first_index_step)
  next
    case True
    show ?thesis
    proof (cases "P i")
      case True
      with \<open>i < n\<close> show ?thesis by (auto simp: first_index_step)
    next
      case False
      have "(\<forall>j. Suc i \<le> j \<and> j < n \<longrightarrow> \<not> P j) \<longleftrightarrow> (\<forall>j. i \<le> j \<and> j < n \<longrightarrow> \<not> P j)"
        using False by (metis Suc_leD Suc_le_eq le_eq_less_or_eq)
      with 1 True False show ?thesis by (simp add: first_index_step)
    qed
  qed
qed

lemma dec_value_zero_pad: "dec_value (zero_pad w ds) = dec_value ds"
proof -
  have "foldl (\<lambda>a c. 10 * a + digit_val c) 0 (replicate k CHR ''0'') = 0" for k
    by (induction k) (simp_all add: digit_val_def)
  then show ?thesis by (simp add: dec_value_def zero_pad_def)
qed

lemma length_zero_pad: "length (zero_pad w ds) = max w (length ds)"
  by (simp add: zero_pad_def)

definition code_text :: "char \<Rightarrow> nat \<Rightarrow> string" where
  "code_text c i = snprintf MAX_CODE_LEN (c # fmt_0d 3 (int i))"

lemma code_text_inj:
  assumes "i < 10 ^ 6" and "j < 10 ^ 6" and "code_text c i = code_text c j"
  shows "i = j"
proof -
  have l: "length (fmt_0d 3 (int n)) \<le> 6" if "n < 10 ^ 6" for n
    using length_dec_digits [of n 6] that by (simp add: fmt_0d_def length_zero_pad)
  have "fmt_0d 3 (int i) = fmt_0d 3 (int j)"
    using assms l [of i] l [of j] by (simp add: code_text_def snprintf_def MAX_CODE_LEN_def)
  then have "dec_value (fmt_0d 3 (int i)) = dec_value (fmt_0d 3 (int j))" by simp
  then show ?thesis by (simp add: fmt_0d_def dec_value_zero_pad dec_value_dec_digits)
qed

definition routers_inv :: "shm_registry \<Rightarrow> bool" where
  "routers_inv reg \<longleftrightarrow>
     0 \<le> reg_router_count reg \<and> reg_router_count reg \<le> int MAX_ROUTERS
     \<and> reg_next_router_code reg = reg_router_count reg
     \<and> (\<forall>i. re_active (reg_routers reg i) \<longleftrightarrow> int i < reg_router_count reg)
     \<and> (\<forall>i. int i < reg_router_count reg \<longrightarrow>
            re_router_code (reg_routers reg i) = code_text CHR ''r'' i)
     \<and> (\<forall>i j. int i < reg_router_count reg \<and> int j < reg_router_count reg
            \<and> re_router_name (reg_routers reg i) = re_router_name (reg_routers reg j) \<longrightarrow> i = j)"

definition registered_router :: "shm_registry \<Rightarrow> string \<Rightarrow> string \<Rightarrow> bool" where
  "registered_router reg n c \<longleftrightarrow>
     (\<exists>i. int i < reg_router_count reg \<and> re_router_name (reg_routers reg i) = n
          \<and> re_router_code (reg_routers reg i) = c)"

lemma routers_inv_clear: "routers_inv clear_shared_registry"
  by (simp add: routers_inv_def clear_shared_registry_def)

lemma registered_router_code_eq_iff:
  assumes "routers_inv reg" and "registered_router reg n c" and "registered_router reg m c'"
  shows "c = c' \<longleftrightarrow> n = m"
proof -
  from assms(2) obtain i where i: "int i < reg_router_count reg"
    "re_router_name (reg_routers reg i) = n" "re_router_code (reg_routers reg i) = c"
    unfolding registered_router_def by blast
  from assms(3) obtain j where j: "int j < reg_router_count reg"
    "re_router_name (reg_routers reg j) = m" "re_router_code (reg_routers reg j) = c'"
    unfolding registered_router_def by blast
  from assms(1) i(1) j(1) have b: "i < 10 ^ 6" "j < 10 ^ 6"
    by (simp_all add: routers_inv_def MAX_ROUTERS_def)
  from assms(1) i j have codes: "c = code_text CHR ''r'' i" "c' = code_text CHR ''r'' j"
    by (auto simp: routers_inv_def)
  show ?thesis
  proof
    assume "c = c'"
    with codes b have "i = j" using code_text_inj by blast
    with i j show "n = m" by simp
  next
    assume "n = m"
    with assms(1) i j have "i = j" unfolding routers_inv_def by blast
    with i j show "c = c'" by simp
  qed
qed

lemma get_router_code_shm_inv:
  assumes inv: "routers_inv reg" and short: "length n < MAX_NAME_LEN"
    and res: "get_router_code_shm reg n = (r, reg')"
  shows "routers_inv reg'"
    and "\<And>c. r = Some c \<Longrightarrow> registered_router reg' n c"
    and "\<And>m c. registered_router reg m c \<Longrightarrow> registered_router reg' m c"
    and "reg_interfaces reg' = reg_interfaces reg"
    and "reg_next_interface_codes reg' = reg_next_interface_codes reg"
proof -
  let ?k = "nat (reg_router_count reg)"
  let ?found = "first_index 0 (min MAX_ROUTERS (nat (reg_router_count reg + 10)))
             (\<lambda>i. re_active (reg_routers reg i) \<and> re_router_name (reg_routers reg i) = n)"
  from inv have cnt: "0 \<le> reg_router_count reg" "reg_router_count reg \<le> int MAX_ROUTERS"
    and nxt: "reg_next_router_code reg = reg_router_count reg"
    and act: "\<And>i. re_active (reg_routers reg i) \<longleftrightarrow> int i < reg_router_count reg"
    and cod: "\<And>i. int i < reg_router_count reg \<Longrightarrow> re_router_code (reg_routers reg i) = code_text CHR ''r'' i"
    and dis: "\<And>i j. int i < reg_router_count reg \<Longrightarrow> int j < reg_router_count reg \<Longrightarrow>
            re_router_name (reg_routers reg i) = re_router_name (reg_routers reg j) \<Longrightarrow> i = j"
    unfolding routers_inv_def by blast+
  have concl: "routers_inv reg' \<and> (\<forall>c. r = Some c \<longrightarrow> registered_router reg' n c)
      \<and> (\<forall>m c. registered_router reg m c \<longrightarrow> registered_router reg' m c)
      \<and> reg_interfaces reg' = reg_interfaces reg
      \<and> reg_next_interface_codes reg' = reg_next_interface_codes reg"
  proof (cases ?found)
    case (Some i)
    then have i: "re_active (reg_routers reg i)" "re_router_name (reg_routers reg i) = n"
      by (simp_all add: first_index_Some_iff)
    from Some res have "r = Some (re_router_code (reg_routers reg i))" "reg' = reg"
      by (auto simp: get_router_code_shm_def)
    with inv i act show ?thesis by (auto simp: registered_router_def)
  next
    case None
    then have nomatch: "\<And>j. int j < reg_router_count reg \<Longrightarrow> re_router_name (reg_routers reg j) \<noteq> n"
      using act cnt by (auto simp: first_index_None_iff)
    show ?thesis
    proof (cases "reg_router_count reg \<ge> int MAX_ROUTERS")
      case True
      with None res have "r = None" "reg' = reg" by (auto simp: get_router_code_shm_def)
      with inv show ?thesis by simp
    next
      case False
      with cnt have klt: "?k < MAX_ROUTERS" by simp
      have free: "first_index 0 MAX_ROUTERS (\<lambda>i. \<not> re_active (reg_routers reg i)) = Some ?k"
        using klt cnt act by (auto simp: first_index_Some_iff)
      let ?code = "snprintf MAX_CODE_LEN (''r'' @ fmt_0d 3 (reg_next_router_code reg))"
      have code: "?code = code_text CHR ''r'' ?k"
        using cnt nxt by (simp add: code_text_def)
      from None False free res have r: "r = Some ?code"
        and reg': "reg' = reg\<lparr> reg_routers := (reg_routers reg)
                               (?k := \<lparr> re_router_name = take (MAX_NAME_LEN - 1) n,
                                       re_router_code = ?code, re_active = True \<rparr>),
                           reg_next_router_code := reg_next_router_code reg + 1,
                           reg_router_count := reg_router_count reg + 1 \<rparr>"
        by (auto simp: get_router_code_shm_def Let_def)
      have tk: "take (MAX_NAME_LEN - Suc 0) n = n" using short by (simp add: MAX_NAME_LEN_def)
      have ik: "int ?k = reg_router_count reg" using cnt by simp
      have lt: "int i < reg_router_count reg + 1 \<longleftrightarrow> i = ?k \<or> int i < reg_router_count reg" for i
        using ik by auto
      have nk: "int i < reg_router_count reg \<Longrightarrow> i \<noteq> ?k" for i
        using ik by auto
      have rk: "reg_routers reg' ?k = \<lparr> re_router_name = n, re_router_code = ?code, re_active = True \<rparr>"
        by (simp add: reg' tk)
      have ro: "i \<noteq> ?k \<Longrightarrow> reg_routers reg' i = reg_routers reg i" for i
        by (simp add: reg')
      have c': "reg_router_count reg' = reg_router_count reg + 1"
        "reg_next_router_code reg' = reg_next_router_code reg + 1"
        by (simp_all add: reg')
      have a1: "re_active (reg_routers reg' i) \<longleftrightarrow> int i < reg_router_count reg'" for i
      proof (cases "i = ?k")
        case True
        then show ?thesis using rk c' ik by simp
      next
        case False
        then show ?thesis using ro [of i] act [of i] lt [of i] c' by simp
      qed
      have a2: "re_router_code (reg_routers reg' i) = code_text CHR ''r'' i"
        if "int i < reg_router_count reg'" for i
      proof (cases "i = ?k")
        case True
        then show ?thesis using rk code by simp
      next
        case False
        with that c' lt [of i] have "int i < reg_router_count reg" by simp
        then show ?thesis using False ro [of i] cod [of i] by simp
      qed
      have a3: "i = j" if "int i < reg_router_count reg'" "int j < reg_router_count reg'"
        "re_router_name (reg_routers reg' i) = re_router_name (reg_routers reg' j)" for i j
      proof (cases "i = ?k")
        case True
        show ?thesis
        proof (rule ccontr)
          assume "i \<noteq> j"
          with True that(2) c' lt have j: "int j < reg_router_count reg" "j \<noteq> ?k" by auto
          with that(3) True rk ro have "re_router_name (reg_routers reg j) = n" by simp
          with nomatch j(1) show False by blast
        qed
      next
        case False
        with that(1) c' lt have i: "int i < reg_router_count reg" by auto
        show ?thesis
        proof (cases "j = ?k")
          case True
          with that(3) False rk ro have "re_router_name (reg_routers reg i) = n" by simp
          with nomatch i show ?thesis by blast
        next
          case jf: False
          with that(2) c' lt have "int j < reg_router_count reg" by auto
          with i that(3) False jf ro dis show ?thesis by simp
        qed
      qed
      have 1: "routers_inv reg'"
        unfolding routers_inv_def
      proof (intro conjI allI impI)
        show "0 \<le> reg_router_count reg'" using c' cnt by simp
        show "reg_router_count reg' \<le> int MAX_ROUTERS" using c' klt cnt by simp
        show "reg_next_router_code reg' = reg_router_count reg'" using c' nxt by simp
        show "re_active (reg_routers reg' i) = (int i < reg_router_count reg')" for i by (rule a1)
        show "re_router_code (reg_routers reg' i) = code_text CHR ''r'' i"
          if "int i < reg_router_count reg'" for i using that by (rule a2)
        show "i = j" if "int i < reg_router_count reg' \<and> int j < reg_router_count reg' \<and>
           re_router_name (reg_routers reg' i) = re_router_name (reg_routers reg' j)" for i j
          using that a3 by blast
      qed
      have 2: "registered_router reg' n ?code"
        unfolding registered_router_def using rk ik c' by (intro exI [of _ ?k]) simp
      have 3: "registered_router reg' m c" if "registered_router reg m c" for m c
      proof -
        from that obtain i where i: "int i < reg_router_count reg"
          "re_router_name (reg_routers reg i) = m" "re_router_code (reg_routers reg i) = c"
          unfolding registered_router_def by blast
        then show ?thesis
          unfolding registered_router_def using ro [of i] nk [of i] c'
          by (intro exI [of _ i]) simp
      qed
      from 1 2 3 r reg' show ?thesis by simp
    qed
  qed
  from concl show "routers_inv reg'"
    and "\<And>c. r = Some c \<Longrightarrow> registered_router reg' n c"
    and "\<And>m c. registered_router reg m c \<Longrightarrow> registered_router reg' m c"
    and "reg_interfaces reg' = reg_interfaces reg"
    and "reg_next_interface_codes reg' = reg_next_interface_codes reg"
    by blast+
qed

lemma block_slot_eq:
  assumes "i < MAX_INTERFACES_PER_ROUTER" and "k < MAX_INTERFACES_PER_ROUTER"
  shows "b' * MAX_INTERFACES_PER_ROUTER + i = b * MAX_INTERFACES_PER_ROUTER + k \<longleftrightarrow> b' = b \<and> i = k"
proof
  assume eq: "b' * MAX_INTERFACES_PER_ROUTER + i = b * MAX_INTERFACES_PER_ROUTER + k"
  have "(b' * MAX_INTERFACES_PER_ROUTER + i) div MAX_INTERFACES_PER_ROUTER = b'"
    using assms(1) by simp
  moreover have "(b * MAX_INTERFACES_PER_ROUTER + k) div MAX_INTERFACES_PER_ROUTER = b"
    using assms(2) by simp
  ultimately have "b' = b" using eq by simp
  with eq show "b' = b \<and> i = k" by simp
next
  assume "b' = b \<and> i = k"
  then show "b' * MAX_INTERFACES_PER_ROUTER + i = b * MAX_INTERFACES_PER_ROUTER + k" by simp
qed

text \<open>
  The interface table is read in blocks of \<^verbatim>\<open>MAX_INTERFACES_PER_ROUTER\<close> slots, one block
  per router index. In a registry that was cleared and then only used through the two
  get-or-create functions, the slots of a block are filled from the front, slot \<open>i\<close>
  holds the code \<open>i%03d\<close> of \<open>i\<close>, and no two slots of a block hold the same router
  code and interface name.
\<close>

definition slot :: "shm_registry \<Rightarrow> nat \<Rightarrow> nat \<Rightarrow> shm_interface_entry" where
  "slot reg b i = reg_interfaces reg (b * MAX_INTERFACES_PER_ROUTER + i)"

definition block_inv :: "shm_registry \<Rightarrow> nat \<Rightarrow> bool" where
  "block_inv reg b \<longleftrightarrow>
     0 \<le> reg_next_interface_codes reg b
     \<and> reg_next_interface_codes reg b \<le> int MAX_INTERFACES_PER_ROUTER
     \<and> (\<forall>i<MAX_INTERFACES_PER_ROUTER.
            ie_active (slot reg b i) \<longleftrightarrow> int i < reg_next_interface_codes reg b)
     \<and> (\<forall>i. int i < reg_next_interface_codes reg b \<longrightarrow>
            ie_interface_code (slot reg b i) = code_text CHR ''i'' i)
     \<and> (\<forall>i j. int i < reg_next_interface_codes reg b \<and> int j < reg_next_interface_codes reg b
            \<and> ie_router_code (slot reg b i) = ie_router_code (slot reg b j)
            \<and> ie_interface_name (slot reg b i) = ie_interface_name (slot reg b j)
            \<longrightarrow> i = j)"

definition interfaces_inv :: "shm_registry \<Rightarrow> bool" where
  "interfaces_inv reg \<longleftrightarrow> (\<forall>b. block_inv reg b)"

definition registered_interface :: "shm_registry \<Rightarrow> nat \<Rightarrow> string \<Rightarrow> string \<Rightarrow> string \<Rightarrow> bool" where
  "registered_interface reg b rc n c \<longleftrightarrow>
     (\<exists>i. int i < reg_next_interface_codes reg b
          \<and> ie_router_code (slot reg b i) = rc
          \<and> ie_interface_name (slot reg b i) = n
          \<and> ie_interface_code (slot reg b i) = c)"

definition block_of :: "string \<Rightarrow> nat" where
  "block_of router_code = nat (atoi (tl router_code))"

lemma interfaces_inv_clear: "interfaces_inv clear_shared_registry"
  by (simp add: interfaces_inv_def block_inv_def slot_def clear_shared_registry_def)

lemma registered_interface_code_eq_iff:
  assumes "interfaces_inv reg" and "registered_interface reg b rc n c"
    and "registered_interface reg b rc' m c'"
  shows "c = c' \<longleftrightarrow> rc = rc' \<and> n = m"
proof -
  from assms(2) obtain i where i: "int i < reg_next_interface_codes reg b"
    "ie_router_code (slot reg b i) = rc" "ie_interface_name (slot reg b i) = n"
    "ie_interface_code (slot reg b i) = c"
    unfolding registered_interface_def by blast
  from assms(3) obtain j where j: "int j < reg_next_interface_codes reg b"
    "ie_router_code (slot reg b j) = rc'" "ie_interface_name (slot reg b j) = m"
    "ie_interface_code (slot reg b j) = c'"
    unfolding registered_interface_def by blast
  from assms(1) have bi: "block_inv reg b" by (simp add: interfaces_inv_def)
  then have le: "reg_next_interface_codes reg b \<le> int MAX_INTERFACES_PER_ROUTER"
    by (simp add: block_inv_def)
  from bi have cod: "ie_interface_code (slot reg b x) = code_text CHR ''i'' x"
    if "int x < reg_next_interface_codes reg b" for x
    using that by (simp add: block_inv_def)
  from bi have dis: "x = y" if "int x < reg_next_interface_codes reg b"
    "int y < reg_next_interface_codes reg b"
    "ie_router_code (slot reg b x) = ie_router_code (slot reg b y)"
    "ie_interface_name (slot reg b x) = ie_interface_name (slot reg b y)" for x y
    using that unfolding block_inv_def by blast
  from le i(1) j(1) have b: "i < 10 ^ 6" "j < 10 ^ 6"
    by (simp_all add: MAX_INTERFACES_PER_ROUTER_def)
  from cod [OF i(1)] cod [OF j(1)] i(4) j(4)
  have codes: "c = code_text CHR ''i'' i" "c' = code_text CHR ''i'' j" by simp_all
  show ?thesis
  proof
    assume "c = c'"
    with codes b have "i = j" using code_text_inj by blast
    with i j show "rc = rc' \<and> n = m" by simp
  next
    assume "rc = rc' \<and> n = m"
    with i j have "i = j" using dis [of i j] by simp
    with i j show "c = c'" by simp
  qed
qed

lemma get_interface_code_shm_inv:
  assumes inv: "interfaces_inv reg"
    and rcl: "length rc < MAX_CODE_LEN" and nl: "length n < MAX_NAME_LEN"
    and res: "get_interface_code_shm reg rc n = Inr (r, reg')"
  shows "interfaces_inv reg'
     \<and> (\<forall>c. r = Some c \<longrightarrow> registered_interface reg' (block_of rc) rc n c)
     \<and> (\<forall>b rc' m c. registered_interface reg b rc' m c \<longrightarrow> registered_interface reg' b rc' m c)
     \<and> reg_routers reg' = reg_routers reg
     \<and> reg_router_count reg' = reg_router_count reg
     \<and> reg_next_router_code reg' = reg_next_router_code reg"
proof (cases "rc \<noteq> [] \<and> hd rc = CHR ''r'' \<and> \<not> atoi (tl rc) \<ge> int MAX_ROUTERS
                \<and> atoi (tl rc) \<noteq> -1")
  case False
  with res have "r = None \<and> reg' = reg"
    by (auto simp: get_interface_code_shm_def Let_def split: if_splits)
  with inv show ?thesis by simp
next
  case True
  let ?b = "block_of rc"
  let ?M = MAX_INTERFACES_PER_ROUTER
  from True res have nonneg: "\<not> atoi (tl rc) < 0"
    by (auto simp: get_interface_code_shm_def Let_def split: if_splits)
  then have idx: "nat (atoi (tl rc)) = ?b" by (simp add: block_of_def)
  let ?nic = "reg_next_interface_codes reg ?b"
  let ?k = "nat ?nic"
  let ?found = "first_index 0 ?M
                   (\<lambda>i. ie_active (reg_interfaces reg (?b * ?M + i)) \<and>
                        ie_router_code (reg_interfaces reg (?b * ?M + i)) = rc \<and>
                        ie_interface_name (reg_interfaces reg (?b * ?M + i)) = n)"
  let ?free = "first_index 0 ?M (\<lambda>i. \<not> ie_active (reg_interfaces reg (?b * ?M + i)))"
  from inv have bi: "block_inv reg ?b" by (simp add: interfaces_inv_def)
  then have cnt: "0 \<le> ?nic" "?nic \<le> int ?M"
    and act: "\<And>i. i < ?M \<Longrightarrow> ie_active (slot reg ?b i) \<longleftrightarrow> int i < ?nic"
    and cod: "\<And>i. int i < ?nic \<Longrightarrow> ie_interface_code (slot reg ?b i) = code_text CHR ''i'' i"
    by (simp_all add: block_inv_def)
  from bi have dis: "x = y" if "int x < ?nic" "int y < ?nic"
    "ie_router_code (slot reg ?b x) = ie_router_code (slot reg ?b y)"
    "ie_interface_name (slot reg ?b x) = ie_interface_name (slot reg ?b y)" for x y
    using that unfolding block_inv_def by blast
  have unfold: "get_interface_code_shm reg rc n =
      (case ?found of
         Some i \<Rightarrow> Inr (Some (ie_interface_code (reg_interfaces reg (?b * ?M + i))), reg)
       | None \<Rightarrow>
           (case ?free of
              None \<Rightarrow> Inr (None, reg)
            | Some i \<Rightarrow>
                Inr (Some (snprintf MAX_CODE_LEN (''i'' @ fmt_0d 3 ?nic)),
                     reg\<lparr> reg_interfaces := (reg_interfaces reg)
                              (?b * ?M + i :=
                                 \<lparr> ie_router_code = take (MAX_CODE_LEN - 1) rc,
                                   ie_interface_name = take (MAX_NAME_LEN - 1) n,
                                   ie_interface_code = snprintf MAX_CODE_LEN (''i'' @ fmt_0d 3 ?nic),
                                   ie_active = True \<rparr>),
                          reg_next_interface_codes := (reg_next_interface_codes reg)
                              (?b := ?nic + 1),
                          reg_interface_count := reg_interface_count reg + 1 \<rparr>)))"
    using True nonneg
    by (simp add: get_interface_code_shm_def Let_def idx cong: option.case_cong)
  show ?thesis
  proof (cases ?found)
    case (Some i)
    then have i: "i < ?M" "ie_active (slot reg ?b i)" "ie_router_code (slot reg ?b i) = rc"
      "ie_interface_name (slot reg ?b i) = n"
      by (simp_all add: first_index_Some_iff slot_def)
    from Some res unfold have rr: "r = Some (ie_interface_code (slot reg ?b i))" "reg' = reg"
      by (auto simp: slot_def)
    from i act have "int i < ?nic" by simp
    with i rr have "registered_interface reg' ?b rc n (ie_interface_code (slot reg ?b i))"
      unfolding registered_interface_def by blast
    with rr inv show ?thesis by simp
  next
    case None
    have nomatch: "\<not> (ie_router_code (slot reg ?b j) = rc \<and> ie_interface_name (slot reg ?b j) = n)"
      if "int j < ?nic" for j
    proof -
      from that cnt have "j < ?M" by simp
      with that act have "ie_active (slot reg ?b j)" by simp
      with None \<open>j < ?M\<close> show ?thesis by (auto simp: first_index_None_iff slot_def)
    qed
    show ?thesis
    proof (cases "?nic = int ?M")
      case True
      then have "?free = None"
        using act by (auto simp: first_index_None_iff slot_def)
      with None res unfold have "r = None \<and> reg' = reg" by auto
      with inv show ?thesis by simp
    next
      case False
      with cnt have klt: "?k < ?M" by simp
      have ik: "int ?k = ?nic" using cnt by simp
      have free: "?free = Some ?k"
        using klt act ik by (auto simp: first_index_Some_iff slot_def)
      let ?code = "snprintf MAX_CODE_LEN (''i'' @ fmt_0d 3 ?nic)"
      have code: "?code = code_text CHR ''i'' ?k"
        using ik by (simp add: code_text_def)
      have tk: "take (MAX_CODE_LEN - Suc 0) rc = rc" "take (MAX_NAME_LEN - Suc 0) n = n"
        using rcl nl by (simp_all add: MAX_CODE_LEN_def MAX_NAME_LEN_def)
      from None free res unfold have r: "r = Some ?code"
        and reg': "reg' = reg\<lparr> reg_interfaces := (reg_interfaces reg)
                              (?b * ?M + ?k :=
                                 \<lparr> ie_router_code = rc, ie_interface_name = n,
                                   ie_interface_code = ?code, ie_active = True \<rparr>),
                          reg_next_interface_codes := (reg_next_interface_codes reg)
                              (?b := ?nic + 1),
                          reg_interface_count := reg_interface_count reg + 1 \<rparr>"
        by (auto simp: tk)
      have nic': "reg_next_interface_codes reg' b = (if b = ?b then ?nic + 1 else reg_next_interface_codes reg b)" for b
        by (simp add: reg')
      have sk: "slot reg' ?b ?k = \<lparr> ie_router_code = rc, ie_interface_name = n,
                                   ie_interface_code = ?code, ie_active = True \<rparr>"
        by (simp add: reg' slot_def)
      have so: "slot reg' b i = slot reg b i" if "i < ?M" "b \<noteq> ?b \<or> i \<noteq> ?k" for b i
        using that klt block_slot_eq [of i ?k b ?b] by (auto simp: reg' slot_def)
      have lt: "int i < ?nic + 1 \<longleftrightarrow> i = ?k \<or> int i < ?nic" for i
        using ik by auto
      have ltM: "int i < ?nic \<Longrightarrow> i < ?M \<and> i \<noteq> ?k" for i
        using ik cnt by auto
      have blk: "block_inv reg' b" for b
      proof (cases "b = ?b")
        case False
        from inv have old: "block_inv reg b" by (simp add: interfaces_inv_def)
        have same: "slot reg' b i = slot reg b i" if "int i < reg_next_interface_codes reg b" for i
        proof -
          from old that have "i < ?M" by (simp add: block_inv_def)
          with False show ?thesis using so by simp
        qed
        have same': "slot reg' b i = slot reg b i" if "i < ?M" for i
          using that False so by simp
        have n': "reg_next_interface_codes reg' b = reg_next_interface_codes reg b"
          using False by (simp add: nic')
        from old have o1: "0 \<le> reg_next_interface_codes reg b"
          "reg_next_interface_codes reg b \<le> int ?M"
          and o2: "\<And>i. i < ?M \<Longrightarrow> ie_active (slot reg b i) \<longleftrightarrow> int i < reg_next_interface_codes reg b"
          and o3: "\<And>i. int i < reg_next_interface_codes reg b \<Longrightarrow>
                 ie_interface_code (slot reg b i) = code_text CHR ''i'' i"
          by (simp_all add: block_inv_def)
        from old have o4: "x = y" if "int x < reg_next_interface_codes reg b"
          "int y < reg_next_interface_codes reg b"
          "ie_router_code (slot reg b x) = ie_router_code (slot reg b y)"
          "ie_interface_name (slot reg b x) = ie_interface_name (slot reg b y)" for x y
          using that unfolding block_inv_def by blast
        show ?thesis
          unfolding block_inv_def n'
        proof (intro conjI allI impI)
          show "0 \<le> reg_next_interface_codes reg b"
            and "reg_next_interface_codes reg b \<le> int ?M" using o1 by simp_all
          show "ie_active (slot reg' b i) = (int i < reg_next_interface_codes reg b)"
            if "i < ?M" for i using that same' [of i] o2 [of i] by simp
          show "ie_interface_code (slot reg' b i) = code_text CHR ''i'' i"
            if "int i < reg_next_interface_codes reg b" for i
            using that same [of i] o3 [of i] by simp
          show "i = j" if "int i < reg_next_interface_codes reg b \<and>
             int j < reg_next_interface_codes reg b \<and>
             ie_router_code (slot reg' b i) = ie_router_code (slot reg' b j) \<and>
             ie_interface_name (slot reg' b i) = ie_interface_name (slot reg' b j)" for i j
            using that same [of i] same [of j] o4 [of i j] by simp
        qed
      next
        case True
        have a1: "ie_active (slot reg' ?b i) \<longleftrightarrow> int i < ?nic + 1" if "i < ?M" for i
        proof (cases "i = ?k")
          case True
          then show ?thesis using sk ik by simp
        next
          case False
          then show ?thesis using so [of i ?b] act [of i] lt [of i] that by simp
        qed
        have a2: "ie_interface_code (slot reg' ?b i) = code_text CHR ''i'' i" if "int i < ?nic + 1" for i
        proof (cases "i = ?k")
          case True
          then show ?thesis using sk code by simp
        next
          case False
          with that lt [of i] have "int i < ?nic" by simp
          then show ?thesis using False so [of i ?b] cod [of i] ltM [of i] by simp
        qed
        have a3: "i = j" if "int i < ?nic + 1" "int j < ?nic + 1"
          "ie_router_code (slot reg' ?b i) = ie_router_code (slot reg' ?b j)"
          "ie_interface_name (slot reg' ?b i) = ie_interface_name (slot reg' ?b j)" for i j
        proof (cases "i = ?k")
          case True
          show ?thesis
          proof (rule ccontr)
            assume "i \<noteq> j"
            with True that(2) lt [of j] have j: "int j < ?nic" "j \<noteq> ?k" by auto
            with so [of j ?b] ltM [of j] have "slot reg' ?b j = slot reg ?b j" by simp
            with that(3,4) True sk have "ie_router_code (slot reg ?b j) = rc"
              "ie_interface_name (slot reg ?b j) = n" by simp_all
            with nomatch [OF j(1)] show False by simp
          qed
        next
          case False
          with that(1) lt [of i] have i: "int i < ?nic" by simp
          with so [of i ?b] ltM [of i] have si: "slot reg' ?b i = slot reg ?b i" by simp
          show ?thesis
          proof (cases "j = ?k")
            case True
            with that(3,4) si sk have "ie_router_code (slot reg ?b i) = rc"
              "ie_interface_name (slot reg ?b i) = n" by simp_all
            with nomatch [OF i] show ?thesis by simp
          next
            case jf: False
            with that(2) lt [of j] have j: "int j < ?nic" by simp
            with so [of j ?b] ltM [of j] have sj: "slot reg' ?b j = slot reg ?b j" by simp
            from that(3,4) si sj dis [OF i j] show ?thesis by simp
          qed
        qed
        have nb: "reg_next_interface_codes reg' ?b = ?nic + 1" by (simp add: nic')
        show ?thesis
          unfolding block_inv_def True nb
        proof (intro conjI allI impI)
          show "0 \<le> ?nic + 1" using cnt by simp
          show "?nic + 1 \<le> int ?M" using klt ik by simp
          show "ie_active (slot reg' ?b i) = (int i < ?nic + 1)" if "i < ?M" for i
            using that by (rule a1)
          show "ie_interface_code (slot reg' ?b i) = code_text CHR ''i'' i"
            if "int i < ?nic + 1" for i using that by (rule a2)
          show "i = j" if "int i < ?nic + 1 \<and> int j < ?nic + 1 \<and>
             ie_router_code (slot reg' ?b i) = ie_router_code (slot reg' ?b j) \<and>
             ie_interface_name (slot reg' ?b i) = ie_interface_name (slot reg' ?b j)" for i j
            using that a3 by blast
        qed
      qed
      have 1: "interfaces_inv reg'" using blk by (simp add: interfaces_inv_def)
      have 2: "registered_interface reg' ?b rc n ?code"
        unfolding registered_interface_def using sk ik nic' [of ?b]
        by (intro exI [of _ ?k]) simp
      have 3: "registered_interface reg' b rc' m c" if "registered_interface reg b rc' m c" for b rc' m c
      proof -
        from that obtain i where i: "int i < reg_next_interface_codes reg b"
          "ie_router_code (slot reg b i) = rc'" "ie_interface_name (slot reg b i) = m"
          "ie_interface_code (slot reg b i) = c"
          unfolding registered_interface_def by blast
        from inv have old: "block_inv reg b" by (simp add: interfaces_inv_def)
        with i(1) have iM: "i < ?M" by (simp add: block_inv_def)
        have "b \<noteq> ?b \<or> i \<noteq> ?k" using i(1) ltM [of i] by auto
        with iM have s: "slot reg' b i = slot reg b i" using so by simp
        have "int i < reg_next_interface_codes reg' b" using i(1) nic' [of b] by auto
        with s i show ?thesis unfolding registered_interface_def by (intro exI [of _ i]) simp
      qed
      have 4: "reg_routers reg' = reg_routers reg" "reg_router_count reg' = reg_router_count reg"
        "reg_next_router_code reg' = reg_next_router_code reg"
        by (simp_all add: reg')
      from 1 2 3 4 r show ?thesis by simp
    qed
  qed
qed

subsection \<open>Sequences of get-or-create calls\<close>

datatype registry_call = GetRouterCode string | GetInterfaceCode string string

fun run_call :: "registry_call \<Rightarrow> shm_registry \<Rightarrow> fault + string option \<times> shm_registry" where
  "run_call (GetRouterCode router_name) reg = Inr (get_router_code_shm reg router_name)"
| "run_call (GetInterfaceCode router_code interface_name) reg =
     get_interface_code_shm reg router_code interface_name"

fun run_calls :: "registry_call list \<Rightarrow> shm_registry \<Rightarrow> fault + string option list \<times> shm_registry" where
  "run_calls [] reg = Inr ([], reg)"
| "run_calls (c # cs) reg =
     (case run_call c reg of
        Inl f \<Rightarrow> Inl f
      | Inr (r, reg') \<Rightarrow>
          (case run_calls cs reg' of
             Inl f \<Rightarrow> Inl f
           | Inr (rs, reg'') \<Rightarrow> Inr (r # rs, reg'')))"

text \<open>A call fits when its strings fit the fields they are copied into.\<close>

fun call_fits :: "registry_call \<Rightarrow> bool" where
  "call_fits (GetRouterCode router_name) \<longleftrightarrow> length router_name < MAX_NAME_LEN"
| "call_fits (GetInterfaceCode router_code interface_name) \<longleftrightarrow>
     length router_code < MAX_CODE_LEN \<and> length interface_name < MAX_NAME_LEN"

fun call_registered :: "shm_registry \<Rightarrow> registry_call \<Rightarrow> string \<Rightarrow> bool" where
  "call_registered reg (GetRouterCode n) c = registered_router reg n c"
| "call_registered reg (GetInterfaceCode rc n) c = registered_interface reg (block_of rc) rc n c"

definition registry_inv :: "shm_registry \<Rightarrow> bool" where
  "registry_inv reg \<longleftrightarrow> routers_inv reg \<and> interfaces_inv reg"

lemma run_call_inv:
  assumes "registry_inv reg" and "call_fits call" and "run_call call reg = Inr (r, reg')"
  shows "registry_inv reg'"
    and "\<And>c. r = Some c \<Longrightarrow> call_registered reg' call c"
    and "\<And>call' c. call_registered reg call' c \<Longrightarrow> call_registered reg' call' c"
proof -
  have all: "registry_inv reg' \<and> (\<forall>c. r = Some c \<longrightarrow> call_registered reg' call c)
      \<and> (\<forall>call' c. call_registered reg call' c \<longrightarrow> call_registered reg' call' c)"
  proof (cases call)
    case (GetRouterCode n)
    with assms have res: "get_router_code_shm reg n = (r, reg')" and short: "length n < MAX_NAME_LEN"
      and ri: "routers_inv reg" and ii: "interfaces_inv reg"
      by (simp_all add: registry_inv_def)
    note g = get_router_code_shm_inv [OF ri short res]
    have same: "slot reg' b i = slot reg b i" for b i by (simp add: slot_def g(4))
    have "interfaces_inv reg'"
      using ii by (simp add: interfaces_inv_def block_inv_def same g(5))
    moreover have "call_registered reg' call' c" if "call_registered reg call' c" for call' c
      using that g(3) by (cases call') (simp_all add: registered_interface_def same g(5))
    ultimately show ?thesis using g(1,2) GetRouterCode by (simp add: registry_inv_def)
  next
    case (GetInterfaceCode rc n)
    with assms have res: "get_interface_code_shm reg rc n = Inr (r, reg')"
      and fits: "length rc < MAX_CODE_LEN" "length n < MAX_NAME_LEN"
      and ri: "routers_inv reg" and ii: "interfaces_inv reg"
      by (simp_all add: registry_inv_def)
    note g = get_interface_code_shm_inv [OF ii fits res]
    from g have eqs: "reg_routers reg' = reg_routers reg"
      "reg_router_count reg' = reg_router_count reg"
      "reg_next_router_code reg' = reg_next_router_code reg" by simp_all
    have "routers_inv reg'" using ri by (simp add: routers_inv_def eqs)
    moreover have "call_registered reg' call' c" if "call_registered reg call' c" for call' c
      using that g by (cases call') (simp_all add: registered_router_def eqs)
    ultimately show ?thesis using g GetInterfaceCode by (simp add: registry_inv_def)
  qed
  from all show "registry_inv reg'"
    and "\<And>c. r = Some c \<Longrightarrow> call_registered reg' call c"
    and "\<And>call' c. call_registered reg call' c \<Longrightarrow> call_registered reg' call' c"
    by blast+
qed

lemma run_calls_inv:
  assumes "registry_inv reg" and "\<forall>c\<in>set calls. call_fits c"
    and "run_calls calls reg = Inr (results, reg')"
  shows "registry_inv reg' \<and> length results = length calls
     \<and> (\<forall>call c. call_registered reg call c \<longrightarrow> call_registered reg' call c)
     \<and> (\<forall>i<length calls. \<forall>c. results ! i = Some c \<longrightarrow> call_registered reg' (calls ! i) c)"
  using assms
proof (induction calls arbitrary: reg results)
  case Nil
  then show ?case by simp
next
  case (Cons call calls)
  from Cons.prems(3) obtain r reg1 rs where
    step: "run_call call reg = Inr (r, reg1)" and
    rest: "run_calls calls reg1 = Inr (rs, reg')" and
    results: "results = r # rs"
    by (auto split: sum.splits prod.splits)
  from Cons.prems(2) have fits: "call_fits call" "\<forall>c\<in>set calls. call_fits c" by simp_all
  note s = run_call_inv [OF Cons.prems(1) fits(1) step]
  from Cons.IH [OF s(1) fits(2) rest]
  have ih: "registry_inv reg'" "length rs = length calls"
    "\<And>call c. call_registered reg1 call c \<Longrightarrow> call_registered reg' call c"
    "\<And>i c. i < length calls \<Longrightarrow> rs ! i = Some c \<Longrightarrow> call_registered reg' (calls ! i) c"
    by blast+
  have "call_registered reg' ((call # calls) ! i) c"
    if "i < length (call # calls)" "results ! i = Some c" for i c
  proof (cases i)
    case 0
    with that results have "r = Some c" by simp
    then show ?thesis using 0 s(2) ih(3) by simp
  next
    case (Suc i')
    with that results show ?thesis using ih(4) [of i' c] by simp
  qed
  moreover have "call_registered reg' call' c" if "call_registered reg call' c" for call' c
    using that s(3) ih(3) by blast
  ultimately show ?case using ih(1,2) results by simp
qed

lemma registry_inv_clear: "registry_inv clear_shared_registry"
  by (simp add: registry_inv_def routers_inv_clear interfaces_inv_clear)

text \<open>
  Claim C8 as stated fails for interface codes: the counter is kept per router, so the
  pairs (\<open>r000\<close>, \<open>eth0\<close>) and (\<open>r001\<close>, \<open>eth0\<close>) both get \<open>i000\<close>.
\<close>

theorem interface_codes_repeat_across_routers:
  "map_sum id fst
     (run_calls [GetRouterCode ''alpha'', GetRouterCode ''beta'',
                 GetInterfaceCode ''r000'' ''eth0'', GetInterfaceCode ''r001'' ''eth0'']
        clear_shared_registry)
   = Inr [Some ''r000'', Some ''r001'', Some ''i000'', Some ''i000'']"
  by (simp add: registry_eval)

text \<open>
  Claim C8, amended: in any sequence of get-or-create calls on a cleared registry whose
  names fit their fields, two router calls that returned codes returned the same code
  exactly when they named the same router; and two interface calls for the same router
  index that returned codes returned the same code exactly when they gave the same
  router code and interface name. (Across routers the interface codes repeat; the pair
  of router code and interface code is what identifies an interface.)
\<close>

theorem registry_codes_distinct_and_stable:
  assumes "run_calls calls clear_shared_registry = Inr (results, reg)"
    and "\<forall>c\<in>set calls. call_fits c"
    and "i < length calls" and "j < length calls"
    and "results ! i = Some ci" and "results ! j = Some cj"
  shows "(\<forall>n m. calls ! i = GetRouterCode n \<and> calls ! j = GetRouterCode m \<longrightarrow>
            (ci = cj \<longleftrightarrow> n = m))
       \<and> (\<forall>rc n rc' m. calls ! i = GetInterfaceCode rc n \<and> calls ! j = GetInterfaceCode rc' m
            \<and> block_of rc = block_of rc' \<longrightarrow> (ci = cj \<longleftrightarrow> rc = rc' \<and> n = m))"
proof -
  note r = run_calls_inv [OF registry_inv_clear assms(2) assms(1)]
  from r have inv: "routers_inv reg" "interfaces_inv reg" by (simp_all add: registry_inv_def)
  from r assms(3,5) have i: "call_registered reg (calls ! i) ci" by blast
  from r assms(4,6) have j: "call_registered reg (calls ! j) cj" by blast
  show ?thesis
  proof (intro conjI allI impI)
    fix n m assume "calls ! i = GetRouterCode n \<and> calls ! j = GetRouterCode m"
    with i j have "registered_router reg n ci" "registered_router reg m cj" by simp_all
    then show "ci = cj \<longleftrightarrow> n = m" using registered_router_code_eq_iff [OF inv(1)] by blast
  next
    fix rc n rc' m
    assume "calls ! i = GetInterfaceCode rc n \<and> calls ! j = GetInterfaceCode rc' m
            \<and> block_of rc = block_of rc'"
    with i j have "registered_interface reg (block_of rc) rc n ci"
      "registered_interface reg (block_of rc) rc' m cj" by simp_all
    then show "ci = cj \<longleftrightarrow> rc = rc' \<and> n = m"
      using registered_interface_code_eq_iff [OF inv(2)] by blast
  qed
qed

theorem registry_codes_distinct_and_stable_witness:
  "map_sum id fst
     (run_calls [GetRouterCode ''alpha'', GetRouterCode ''beta'', GetRouterCode ''alpha'',
                 GetInterfaceCode ''r000'' ''eth0'', GetInterfaceCode ''r000'' ''eth1'']
        clear_shared_registry)
   = Inr [Some ''r000'', Some ''r001'', Some ''r000'', Some ''i000'', Some ''i001'']
   \<and> ((''r000'' = ''r001'') = (''alpha'' = ''beta''))
   \<and> ((''i000'' = ''i001'') = (''r000'' = ''r000'' \<and> ''eth0'' = ''eth1''))"
proof -
  let ?calls = "[GetRouterCode ''alpha'', GetRouterCode ''beta'', GetRouterCode ''alpha'',
                 GetInterfaceCode ''r000'' ''eth0'', GetInterfaceCode ''r000'' ''eth1'']"
  let ?results = "[Some ''r000'', Some ''r001'', Some ''r000'', Some ''i000'', Some ''i001'']"
  obtain reg where run: "run_calls ?calls clear_shared_registry = Inr (?results, reg)"
    by (simp add: registry_eval)
  have fits: "\<forall>c\<in>set ?calls. call_fits c"
    by (simp add: MAX_NAME_LEN_def MAX_CODE_LEN_def)
  from registry_codes_distinct_and_stable [OF run fits, of 0 1 "''r000''" "''r001''"]
  have 1: "(''r000'' = ''r001'') = (''alpha'' = ''beta'')" by simp
  from registry_codes_distinct_and_stable [OF run fits, of 3 4 "''i000''" "''i001''"]
  have 2: "(''i000'' = ''i001'') = (''r000'' = ''r000'' \<and> ''eth0'' = ''eth1'')" by simp
  from run have 3: "map_sum id fst (run_calls ?calls clear_shared_registry) = Inr ?results"
    by simp
  from 1 2 3 show ?thesis by blast
qed

text \<open>A name that does not fit its field is registered again on every call.\<close>

lemma long_router_name_registered_twice:
  "map_sum id fst
     (run_calls [GetRouterCode (replicate 64 CHR ''x''), GetRouterCode (replicate 64 CHR ''x'')]
        clear_shared_registry)
   = Inr [Some ''r000'', Some ''r001'']"
  by (simp add: registry_eval)

section \<open>The namespace reader (netns\_reader.c)\<close>

text \<open>
  The helper is a separate executable.  Its tables are the command whitelist, each command with
  the absolute path that is executed for it, and the argument whitelists of \<^verbatim>\<open>ip\<close> and
  \<^verbatim>\<open>ipset\<close>.
\<close>

definition allowed_commands :: "(string \<times> string) list" where
  "allowed_commands =
     [(''ip'', ''/usr/sbin/ip''),
      (''iptables-save'', ''/usr/sbin/iptables-save''),
      (''ip6tables-save'', ''/usr/sbin/ip6tables-save''),
      (''ipset'', ''/usr/sbin/ipset''),
      (''ss'', ''/usr/bin/ss''),
      (''netstat'', ''/usr/bin/netstat'')]"

definition allowed_ip_args :: "string list" where
  "allowed_ip_args =
     [''addr'', ''show'', ''route'', ''show'', ''table'', ''rule'', ''show'', ''link'', ''show'',
      ''-j'', ''-json'', ''-details'']"

definition allowed_ipset_args :: "string list" where
  "allowed_ipset_args = [''list'', ''-n'', ''-name'']"

definition MAX_ARGS :: nat where "MAX_ARGS = 32"

definition NETNS_PATH :: string where "NETNS_PATH = ''/var/run/netns''"

text \<open>\<^verbatim>\<open>get_command_path\<close> walks the table and returns the path of the first entry that matches.\<close>

fun get_command_path_in :: "(string \<times> string) list \<Rightarrow> string \<Rightarrow> string option" where
  "get_command_path_in [] cmd = None"
| "get_command_path_in ((name, path) # rest) cmd =
     (if name = cmd then Some path else get_command_path_in rest cmd)"

definition get_command_path :: "string \<Rightarrow> string option" where
  "get_command_path cmd = get_command_path_in allowed_commands cmd"

text \<open>
  \<^verbatim>\<open>strtol(s, &endptr, 10)\<close>: what is left at \<^verbatim>\<open>endptr\<close>.  White space and one sign are
  skipped; when no digit follows, nothing is converted and \<^verbatim>\<open>endptr\<close> is the start of
  the string.
\<close>

definition strtol_end :: "string \<Rightarrow> string" where
  "strtol_end s =
     (let s1 = dropWhile isspace s;
          s2 = (if s1 \<noteq> [] \<and> (hd s1 = CHR ''-'' \<or> hd s1 = CHR ''+'') then tl s1 else s1)
      in if takeWhile is_digit s2 = [] then s else dropWhile is_digit s2)"

text \<open>
  \<^verbatim>\<open>validate_args\<close>.  For \<^verbatim>\<open>ip\<close> every argument is looked up in the whitelist; an argument
  that is not there passes when the argument before it is \<^verbatim>\<open>table\<close> and \<^verbatim>\<open>strtol\<close> consumes
  it to the end.  For \<^verbatim>\<open>ipset\<close> every argument is looked up in its whitelist.  The two save
  commands take no argument, and the arguments of \<^verbatim>\<open>ss\<close> and \<^verbatim>\<open>netstat\<close> are not looked at.
\<close>

fun validate_ip_args :: "string option \<Rightarrow> string list \<Rightarrow> bool" where
  "validate_ip_args prev [] = True"
| "validate_ip_args prev (a # rest) =
     (let found = (a \<in> set allowed_ip_args);
          found' = (if \<not> found \<and> prev = Some ''table''
                    then (if strtol_end a = [] then True else found)
                    else found)
      in if \<not> found' then False else validate_ip_args (Some a) rest)"

fun validate_ipset_args :: "string list \<Rightarrow> bool" where
  "validate_ipset_args [] = True"
| "validate_ipset_args (a # rest) =
     (if a \<notin> set allowed_ipset_args then False else validate_ipset_args rest)"

definition validate_args :: "string \<Rightarrow> string list \<Rightarrow> bool" where
  "validate_args cmd args =
     (if cmd = ''ip'' then validate_ip_args None args
      else if cmd = ''ipset'' then validate_ipset_args args
      else if cmd = ''iptables-save'' \<or> cmd = ''ip6tables-save'' then \<not> length args > 0
      else True)"

text \<open>
  The system calls of the helper are recorded as a trace; what the kernel answers is a parameter.
  A successful \<^verbatim>\<open>execv\<close> replaces the process image, so the helper itself has no exit status
  then.
\<close>

record netns_env =
  stat_ok :: "string \<Rightarrow> bool"
  opendir_ok :: "string \<Rightarrow> bool"
  open_ok :: "string \<Rightarrow> bool"
  setns_ok :: bool
  getuid :: nat
  getgid :: nat
  setgid_ok :: bool
  setuid_ok :: bool
  execv_ok :: "string \<Rightarrow> bool"

datatype outcome = Exit int | Replaced

datatype netns_event =
    Stat string
  | Opendir string
  | Open string
  | Setns
  | CloseFd
  | Setgid nat
  | Setuid nat
  | Execv string "string list"

definition validate_namespace :: "netns_env \<Rightarrow> string \<Rightarrow> netns_event list \<times> bool" where
  "validate_namespace env nsname =
     (if contains nsname ''/'' \<or> contains nsname ''..'' then ([], False)
      else
        (let nspath = snprintf 256 (NETNS_PATH @ ''/'' @ nsname)
         in ([Stat nspath], stat_ok env nspath)))"

definition enter_namespace_and_exec ::
  "netns_env \<Rightarrow> string \<Rightarrow> string \<Rightarrow> string list \<Rightarrow> netns_event list \<times> outcome" where
  "enter_namespace_and_exec env nsname cmd_path argv =
     (let nspath = snprintf 256 (NETNS_PATH @ ''/'' @ nsname) in
      if \<not> open_ok env nspath then ([Open nspath], Exit 1)
      else if \<not> setns_ok env then ([Open nspath, Setns, CloseFd], Exit 1)
      else if \<not> setgid_ok env
      then ([Open nspath, Setns, CloseFd, Setgid (getgid env)], Exit 1)
      else if \<not> setuid_ok env
      then ([Open nspath, Setns, CloseFd, Setgid (getgid env), Setuid (getuid env)], Exit 1)
      else ([Open nspath, Setns, CloseFd, Setgid (getgid env), Setuid (getuid env),
             Execv cmd_path argv],
            if execv_ok env cmd_path then Replaced else Exit 1))"

text \<open>
  \<^verbatim>\<open>main\<close>.  The argument vector of the executed command has room for \<^verbatim>\<open>MAX_ARGS\<close>
  pointers: the command name, at most \<^verbatim>\<open>MAX_ARGS - 2\<close> arguments copied by the loop, and the
  terminating null pointer.  Validation sees the copied arguments.
\<close>

definition netns_main :: "netns_env \<Rightarrow> string list \<Rightarrow> netns_event list \<times> outcome" where
  "netns_main env argv =
     (if length argv < 2 then ([], Exit 1)
      else if argv ! 1 = ''--list''
      then (if opendir_ok env NETNS_PATH then ([Opendir NETNS_PATH], Exit 0)
            else ([Opendir NETNS_PATH], Exit 1))
      else if length argv < 3 then ([], Exit 1)
      else
        (let nsname = argv ! 1; cmd = argv ! 2;
             (ev1, valid) = validate_namespace env nsname
         in if \<not> valid then (ev1, Exit 1)
            else
              (case get_command_path cmd of
                 None \<Rightarrow> (ev1, Exit 1)
               | Some cmd_path \<Rightarrow>
                   (let args = take (MAX_ARGS - 2) (drop 3 argv) in
                    if \<not> validate_args cmd args then (ev1, Exit 1)
                    else
                      (let (ev2, status) = enter_namespace_and_exec env nsname cmd_path (cmd # args)
                       in (ev1 @ ev2, status))))))"

lemmas netns_eval = netns_main_def validate_namespace_def enter_namespace_and_exec_def
  get_command_path_def allowed_commands_def validate_args_def allowed_ip_args_def
  allowed_ipset_args_def MAX_ARGS_def NETNS_PATH_def strtol_end_def contains_def snprintf_def
  Let_def isspace_def is_digit_def

definition ok_env :: netns_env where
  "ok_env = \<lparr> stat_ok = (\<lambda>_. True), opendir_ok = (\<lambda>_. True), open_ok = (\<lambda>_. True),
     setns_ok = True, getuid = 1000, getgid = 1000, setgid_ok = True, setuid_ok = True,
     execv_ok = (\<lambda>_. True) \<rparr>"

subsection \<open>Properties of the namespace reader\<close>

lemma get_command_path_in_set:
  "get_command_path_in cmds cmd = Some path \<Longrightarrow> (cmd, path) \<in> set cmds"
  by (induction cmds) (auto split: if_splits)

lemma get_command_path_whitelist:
  assumes "get_command_path cmd = Some path"
  shows "path \<in> {''/usr/sbin/ip'', ''/usr/sbin/iptables-save'', ''/usr/sbin/ip6tables-save'',
                 ''/usr/sbin/ipset'', ''/usr/bin/ss'', ''/usr/bin/netstat''}"
proof -
  from assms have "(cmd, path) \<in> set allowed_commands"
    by (simp add: get_command_path_def get_command_path_in_set)
  then show ?thesis by (auto simp: allowed_commands_def)
qed

lemma validate_namespace_events:
  "Execv path args \<notin> set (fst (validate_namespace env nsname))"
  by (simp add: validate_namespace_def Let_def)

lemma enter_namespace_and_exec_Execv:
  assumes "Execv path args \<in> set (fst (enter_namespace_and_exec env nsname cmd_path argv'))"
  shows "path = cmd_path \<and> args = argv' \<and> setgid_ok env \<and> setuid_ok env
     \<and> (\<exists>pre. fst (enter_namespace_and_exec env nsname cmd_path argv')
            = pre @ [Setgid (getgid env), Setuid (getuid env), Execv path args])"
  using assms by (auto simp: enter_namespace_and_exec_def Let_def split: if_splits)

text \<open>The argument checks, read as conditions on the argument list.\<close>

lemma validate_ip_args_iff:
  "validate_ip_args prev args \<longleftrightarrow>
     (\<forall>i < length args. args ! i \<in> set allowed_ip_args
        \<or> (if i = 0 then prev else Some (args ! (i - 1))) = Some ''table''
          \<and> strtol_end (args ! i) = [])"
proof (induction args arbitrary: prev)
  case Nil
  show ?case by simp
next
  case (Cons a rest)
  have "(\<forall>i < length (a # rest). (a # rest) ! i \<in> set allowed_ip_args
        \<or> (if i = 0 then prev else Some ((a # rest) ! (i - 1))) = Some ''table''
          \<and> strtol_end ((a # rest) ! i) = [])
     \<longleftrightarrow> (a \<in> set allowed_ip_args \<or> prev = Some ''table'' \<and> strtol_end a = [])
        \<and> (\<forall>i < length rest. rest ! i \<in> set allowed_ip_args
        \<or> (if i = 0 then Some a else Some (rest ! (i - 1))) = Some ''table''
          \<and> strtol_end (rest ! i) = [])"
    (is "?L \<longleftrightarrow> ?H \<and> ?T")
  proof
    assume l: ?L
    from l [rule_format, of 0] have h: ?H by simp
    have t: ?T
    proof (intro allI impI)
      fix i assume "i < length rest"
      with l [rule_format, of "Suc i"] show "rest ! i \<in> set allowed_ip_args
        \<or> (if i = 0 then Some a else Some (rest ! (i - 1))) = Some ''table''
          \<and> strtol_end (rest ! i) = []"
        by (cases i) auto
    qed
    from h t show "?H \<and> ?T" ..
  next
    assume ht: "?H \<and> ?T"
    show ?L
    proof (intro allI impI)
      fix i assume i: "i < length (a # rest)"
      show "(a # rest) ! i \<in> set allowed_ip_args
        \<or> (if i = 0 then prev else Some ((a # rest) ! (i - 1))) = Some ''table''
          \<and> strtol_end ((a # rest) ! i) = []"
      proof (cases i)
        case 0
        with ht show ?thesis by auto
      next
        case (Suc k)
        with i have "k < length rest" by simp
        with ht have "rest ! k \<in> set allowed_ip_args
          \<or> (if k = 0 then Some a else Some (rest ! (k - 1))) = Some ''table''
            \<and> strtol_end (rest ! k) = []" by blast
        with Suc show ?thesis by (cases k) auto
      qed
    qed
  qed
  with Cons.IH [of "Some a"] show ?case by (auto simp: Let_def)
qed

lemma validate_ipset_args_iff:
  "validate_ipset_args args \<longleftrightarrow> set args \<subseteq> set allowed_ipset_args"
  by (induction args) auto

text \<open>
  Claim C3, as the code has it.  Whenever the trace of the helper contains an \<^verbatim>\<open>execv\<close>, the
  executed path is one of the six whitelisted absolute paths, it is the path of the command
  named on the command line, the executed argument vector is the command followed by the first
  thirty arguments, these thirty passed \<^verbatim>\<open>validate_args\<close>, and the trace ends with a
  successful \<^verbatim>\<open>setgid\<close> to the real group, a successful \<^verbatim>\<open>setuid\<close> to the real user, and the
  \<^verbatim>\<open>execv\<close>; nothing but \<^verbatim>\<open>execv\<close> of that path starts a program, so no shell is run.
  And when the command is missing, the namespace name is refused or absent, the command is not
  whitelisted, or one of the first thirty arguments is refused, the helper exits with status 1
  and its trace has no \<^verbatim>\<open>execv\<close>.
\<close>

theorem netns_reader_exec_safety:
  "(\<forall>path args. Execv path args \<in> set (fst (netns_main env argv)) \<longrightarrow>
       path \<in> {''/usr/sbin/ip'', ''/usr/sbin/iptables-save'', ''/usr/sbin/ip6tables-save'',
                ''/usr/sbin/ipset'', ''/usr/bin/ss'', ''/usr/bin/netstat''}
       \<and> get_command_path (argv ! 2) = Some path
       \<and> args = argv ! 2 # take 30 (drop 3 argv)
       \<and> validate_args (argv ! 2) (take 30 (drop 3 argv))
       \<and> setgid_ok env \<and> setuid_ok env
       \<and> (\<exists>pre. fst (netns_main env argv)
              = pre @ [Setgid (getgid env), Setuid (getuid env), Execv path args]))
   \<and> (argv ! 1 \<noteq> ''--list'' \<and>
        (length argv < 3 \<or> \<not> snd (validate_namespace env (argv ! 1))
         \<or> get_command_path (argv ! 2) = None
         \<or> \<not> validate_args (argv ! 2) (take 30 (drop 3 argv))) \<longrightarrow>
        snd (netns_main env argv) = Exit 1
        \<and> (\<forall>path args. Execv path args \<notin> set (fst (netns_main env argv))))"
proof (intro conjI allI impI)
  fix path args
  assume ex: "Execv path args \<in> set (fst (netns_main env argv))"
  let ?args = "take (MAX_ARGS - 2) (drop 3 argv)"
  obtain ev1 valid where vn: "validate_namespace env (argv ! 1) = (ev1, valid)"
    by (cases "validate_namespace env (argv ! 1)")
  have no1: "Execv path args \<notin> set ev1"
    using validate_namespace_events [of path args env "argv ! 1"] vn by simp
  from ex have len: "\<not> length argv < 3" and nl: "argv ! 1 \<noteq> ''--list''"
    by (auto simp: netns_main_def split: if_splits)
  from ex len nl vn no1 have valid: valid
    by (auto simp: netns_main_def Let_def split: if_splits)
  from ex len nl vn no1 valid obtain cmd_path where cp: "get_command_path (argv ! 2) = Some cmd_path"
    by (cases "get_command_path (argv ! 2)") (auto simp: netns_main_def Let_def split: if_splits)
  from ex len nl vn no1 valid cp have va: "validate_args (argv ! 2) ?args"
    by (auto simp: netns_main_def Let_def split: if_splits)
  obtain ev2 status where en:
    "enter_namespace_and_exec env (argv ! 1) cmd_path (argv ! 2 # ?args) = (ev2, status)"
    by (cases "enter_namespace_and_exec env (argv ! 1) cmd_path (argv ! 2 # ?args)")
  have tr: "fst (netns_main env argv) = ev1 @ ev2"
    using len nl vn valid cp va en by (simp add: netns_main_def Let_def)
  with ex no1 have "Execv path args \<in> set ev2" by simp
  with enter_namespace_and_exec_Execv [of path args env "argv ! 1" cmd_path "argv ! 2 # ?args"] en
  obtain pre where e: "path = cmd_path" "args = argv ! 2 # ?args" "setgid_ok env" "setuid_ok env"
    "ev2 = pre @ [Setgid (getgid env), Setuid (getuid env), Execv path args]"
    by auto
  show "path \<in> {''/usr/sbin/ip'', ''/usr/sbin/iptables-save'', ''/usr/sbin/ip6tables-save'',
                ''/usr/sbin/ipset'', ''/usr/bin/ss'', ''/usr/bin/netstat''}"
    using get_command_path_whitelist [OF cp] e(1) by simp
  show "get_command_path (argv ! 2) = Some path" using cp e(1) by simp
  show "args = argv ! 2 # take 30 (drop 3 argv)" using e(2) by (simp add: MAX_ARGS_def)
  show "validate_args (argv ! 2) (take 30 (drop 3 argv))" using va by (simp add: MAX_ARGS_def)
  show "setgid_ok env" "setuid_ok env" using e(3,4) by simp_all
  show "\<exists>pre. fst (netns_main env argv)
          = pre @ [Setgid (getgid env), Setuid (getuid env), Execv path args]"
    using tr e(5) by (intro exI [of _ "ev1 @ pre"]) simp
next
  assume rej: "argv ! 1 \<noteq> ''--list'' \<and>
        (length argv < 3 \<or> \<not> snd (validate_namespace env (argv ! 1))
         \<or> get_command_path (argv ! 2) = None
         \<or> \<not> validate_args (argv ! 2) (take 30 (drop 3 argv)))"
  obtain ev1 valid where vn: "validate_namespace env (argv ! 1) = (ev1, valid)"
    by (cases "validate_namespace env (argv ! 1)")
  from rej vn have r: "netns_main env argv = ([], Exit 1) \<or> netns_main env argv = (ev1, Exit 1)"
    by (auto simp: netns_main_def Let_def MAX_ARGS_def split: option.splits)
  from r show "snd (netns_main env argv) = Exit 1" by auto
next
  fix path args
  assume rej: "argv ! 1 \<noteq> ''--list'' \<and>
        (length argv < 3 \<or> \<not> snd (validate_namespace env (argv ! 1))
         \<or> get_command_path (argv ! 2) = None
         \<or> \<not> validate_args (argv ! 2) (take 30 (drop 3 argv)))"
  obtain ev1 valid where vn: "validate_namespace env (argv ! 1) = (ev1, valid)"
    by (cases "validate_namespace env (argv ! 1)")
  have no1: "Execv path args \<notin> set ev1"
    using validate_namespace_events [of path args env "argv ! 1"] vn by simp
  from rej vn have r: "netns_main env argv = ([], Exit 1) \<or> netns_main env argv = (ev1, Exit 1)"
    by (auto simp: netns_main_def Let_def MAX_ARGS_def split: option.splits)
  from r no1 show "Execv path args \<notin> set (fst (netns_main env argv))" by auto
qed

theorem netns_reader_exec_safety_witness:
  "netns_main ok_env [''netns_reader'', ''ns1'', ''ip'', ''route'', ''show'', ''table'', ''100'']
     = ([Stat ''/var/run/netns/ns1'', Open ''/var/run/netns/ns1'', Setns, CloseFd,
         Setgid 1000, Setuid 1000,
         Execv ''/usr/sbin/ip'' [''ip'', ''route'', ''show'', ''table'', ''100'']], Replaced)
   \<and> get_command_path ''ip'' = Some ''/usr/sbin/ip''
   \<and> validate_args ''ip'' [''route'', ''show'', ''table'', ''100'']
   \<and> \<not> snd (validate_namespace ok_env ''../proc/1/ns'')
   \<and> netns_main ok_env [''netns_reader'', ''../proc/1/ns'', ''ip''] = ([], Exit 1)
   \<and> get_command_path ''bash'' = None
   \<and> netns_main ok_env [''netns_reader'', ''ns1'', ''bash''] = ([Stat ''/var/run/netns/ns1''], Exit 1)"
  using netns_reader_exec_safety [of ok_env
      "[''netns_reader'', ''ns1'', ''ip'', ''route'', ''show'', ''table'', ''100'']"]
    netns_reader_exec_safety [of ok_env "[''netns_reader'', ''../proc/1/ns'', ''ip'']"]
    netns_reader_exec_safety [of ok_env "[''netns_reader'', ''ns1'', ''bash'']"]
  by (simp add: netns_eval ok_env_def)

text \<open>
  Claim C3 as stated also promises exit status 1 for every disallowed argument.  An argument
  after the thirtieth is not copied, so it is neither checked nor passed on: with thirty times
  \<^verbatim>\<open>show\<close> and then \<^verbatim>\<open>bash\<close>, which is in no whitelist, the helper still executes \<^verbatim>\<open>ip\<close>.
\<close>

theorem netns_reader_ignores_arguments_past_30:
  "\<not> validate_args ''ip'' (replicate 30 ''show'' @ [''bash''])
   \<and> netns_main ok_env ([''netns_reader'', ''ns1'', ''ip''] @ replicate 30 ''show'' @ [''bash''])
     = ([Stat ''/var/run/netns/ns1'', Open ''/var/run/netns/ns1'', Setns, CloseFd,
         Setgid 1000, Setuid 1000,
         Execv ''/usr/sbin/ip'' (''ip'' # replicate 30 ''show'')], Replaced)"
  by (simp add: netns_eval ok_env_def replicate_numeral)

text \<open>The arguments of \<^verbatim>\<open>ss\<close> are passed on as they are.\<close>

lemma netns_reader_ss_arguments:
  "netns_main ok_env [''netns_reader'', ''ns1'', ''ss'', ''--kill'']
     = ([Stat ''/var/run/netns/ns1'', Open ''/var/run/netns/ns1'', Setns, CloseFd,
         Setgid 1000, Setuid 1000, Execv ''/usr/bin/ss'' [''ss'', ''--kill'']], Replaced)"
  by (simp add: netns_eval ok_env_def)

section \<open>Per-router setup: the interface loop (hidden\_mesh\_setup.c, setup\_router\_with\_veth)\<close>

text \<open>
  The loop \<^verbatim>\<open>for (i = 0; i < router->interface_count && !interrupted; i++)\<close> of
  \<^verbatim>\<open>setup_router_with_veth\<close>, with the registry of the mesh context attached.  The loop
  runs command lines with \<^verbatim>\<open>system\<close> and queues command lines with
  \<^verbatim>\<open>batch_add_command\<close>; both are recorded in a trace, in the order of the calls.
\<close>

definition HIDDEN_NS :: string where "HIDDEN_NS = ''hidden-mesh''"

datatype mesh_event = Sys string | Queue string string

text \<open>
  From outside the loop sees the status that \<^verbatim>\<open>system\<close> returns (it may differ from call
  to call, so it is indexed by the number of events before the call) and the flag that the
  signal handler sets, as read by the loop condition of each round.
\<close>

record mesh_env =
  system_returns :: "nat \<Rightarrow> string \<Rightarrow> int"
  interrupted :: "nat \<Rightarrow> bool"

text \<open>
  What the loop changes: the registry, the counter \<^verbatim>\<open>interfaces_created\<close> of the mesh
  context, the batch of the router, and the trace.
\<close>

record mesh_state =
  ms_registry :: shm_registry
  ms_interfaces_created :: int
  ms_batch :: "batch_context option"
  ms_trace :: "mesh_event list"

definition run_system :: "string \<Rightarrow> mesh_state \<Rightarrow> mesh_state" where
  "run_system cmd st = st\<lparr> ms_trace := ms_trace st @ [Sys cmd] \<rparr>"

definition queue_command :: "string \<Rightarrow> string \<Rightarrow> mesh_state \<Rightarrow> mesh_state" where
  "queue_command ns cmd st =
     st\<lparr> ms_batch := snd (batch_add_command (ms_batch st) (Some ns) (Some cmd)),
         ms_trace := ms_trace st @ [Queue ns cmd] \<rparr>"

text \<open>The \<^verbatim>\<open>%s\<close> conversion of the C library in use prints a null pointer as \<^verbatim>\<open>(null)\<close>.\<close>

definition printf_s :: "string option \<Rightarrow> string" where
  "printf_s s = (case s of Some t \<Rightarrow> t | None \<Rightarrow> ''(null)'')"

text \<open>
  \<^verbatim>\<open>inet_pton(AF_INET, s, &addr)\<close> accepts four decimal fields separated by dots, each
  at most 255 and without a leading zero, and nothing else.  The loop keeps the finished
  fields, the value of the field being read, and whether a digit of it has been seen.
\<close>

fun inet_pton4_loop :: "string \<Rightarrow> nat list \<Rightarrow> nat \<Rightarrow> bool \<Rightarrow> nat list option" where
  "inet_pton4_loop [] vals cur saw_digit =
     (if length vals + (if saw_digit then 1 else 0) < 4 then None else Some (vals @ [cur]))"
| "inet_pton4_loop (ch # rest) vals cur saw_digit =
     (if is_digit ch
      then (if saw_digit \<and> cur = 0 then None
            else if cur * 10 + digit_val ch > 255 then None
            else if \<not> saw_digit \<and> length vals + 1 > 4 then None
            else inet_pton4_loop rest vals (cur * 10 + digit_val ch) True)
      else if ch = CHR ''.'' \<and> saw_digit
      then (if length vals + 1 = 4 then None else inet_pton4_loop rest (vals @ [cur]) 0 False)
      else None)"

definition inet_pton4 :: "string \<Rightarrow> nat list option" where
  "inet_pton4 s = inet_pton4_loop s [] 0 False"

text \<open>
  The address as a 32-bit number with the first field in the high byte, and
  \<^verbatim>\<open>inet_ntoa\<close> of such a number.  (The source masks the address in network byte order
  with \<^verbatim>\<open>htonl(mask)\<close>; on the numbers in host order this is the same conjunction.)
\<close>

definition addr_word :: "nat list \<Rightarrow> 32 word" where
  "addr_word vals = foldl (\<lambda>a v. a * 256 + of_nat v) 0 vals"

definition inet_ntoa :: "32 word \<Rightarrow> string" where
  "inet_ntoa a =
     fmt_u (unat (drop_bit 24 a)) @ ''.'' @ fmt_u (unat (drop_bit 16 a AND 255)) @ ''.''
       @ fmt_u (unat (drop_bit 8 a AND 255)) @ ''.'' @ fmt_u (unat (a AND 255))"

text \<open>
  The search for the bridge of an interface walks the addresses.  Each address is copied
  into \<^verbatim>\<open>ip_copy[64]\<close> with \<^verbatim>\<open>strncpy(ip_copy, ip, 63)\<close>, which leaves the copy without a
  terminator when the text has 63 characters or more; the text is cut at the first slash and
  the prefix length read behind it with \<^verbatim>\<open>atoi\<close> into an \<^verbatim>\<open>unsigned int\<close> (24 without a
  slash).  The first address that \<^verbatim>\<open>inet_pton\<close> accepts ends the walk; its subnet is
  formatted into \<^verbatim>\<open>subnet[32]\<close>.  The mask is \<^verbatim>\<open>0xFFFFFFFF << (32 - prefix)\<close>, a shift that
  is defined for the prefix lengths 1 to 32 only.
\<close>

definition subnet_of :: "nat list \<Rightarrow> nat \<Rightarrow> string" where
  "subnet_of vals prefix_len =
     (let mask = push_bit (32 - prefix_len) (0xFFFFFFFF :: 32 word)
      in snprintf 32 (inet_ntoa (addr_word vals AND mask) @ ''/'' @ fmt_u prefix_len))"

fun first_ipv4_subnet :: "address_t list \<Rightarrow> fault + string option" where
  "first_ipv4_subnet [] = Inr None"
| "first_ipv4_subnet (a # rest) =
     (if length (addr_ip a) \<ge> 63 then Inl OutOfBounds
      else
        (let host = takeWhile (\<lambda>c. c \<noteq> CHR ''/'') (addr_ip a);
             prefix_len = (if CHR ''/'' \<in> set (addr_ip a)
                           then nat (atoi (tl (dropWhile (\<lambda>c. c \<noteq> CHR ''/'') (addr_ip a))) mod 2 ^ 32)
                           else 24)
         in case inet_pton4 host of
              None \<Rightarrow> first_ipv4_subnet rest
            | Some vals \<Rightarrow>
                if prefix_len = 0 \<or> prefix_len > 32 then Inl OutOfBounds
                else Inr (Some (subnet_of vals prefix_len))))"

text \<open>
  Attaching the hidden end: when the registry has a bridge for the subnet, the hidden end
  is made a port of it and brought up.
\<close>

definition attach_to_bridge :: "string \<Rightarrow> string option \<Rightarrow> mesh_state \<Rightarrow> mesh_state" where
  "attach_to_bridge veth_hidden subnet st =
     (case subnet of
        None \<Rightarrow> st
      | Some sn \<Rightarrow>
          (case find_bridge_by_subnet (ms_registry st) sn of
             None \<Rightarrow> st
           | Some b \<Rightarrow>
               run_system (snprintf 512 (''ip netns exec '' @ HIDDEN_NS @ '' ip link set ''
                              @ veth_hidden @ '' up''))
                 (run_system (snprintf 512 (''ip netns exec '' @ HIDDEN_NS @ '' ip link set ''
                                @ veth_hidden @ '' master ''
                                @ be_bridge_name (reg_bridges (ms_registry st) b))) st)))"

text \<open>The configuration of the interface inside the router namespace, queued in the batch.\<close>

definition address_command :: "string \<Rightarrow> address_t \<Rightarrow> string" where
  "address_command name a =
     snprintf 512 (''ip addr add '' @ addr_ip a @ '' brd ''
        @ (case addr_broadcast a of Some b \<Rightarrow> b | None \<Rightarrow> ''+'') @ '' dev '' @ name)"

definition configure_interface :: "string \<Rightarrow> interface_t \<Rightarrow> mesh_state \<Rightarrow> mesh_state" where
  "configure_interface ns iface st =
     (let st1 = (case if_mac iface of
                   Some mac \<Rightarrow> queue_command ns (snprintf 512 (''ip link set '' @ if_name iface
                                  @ '' address '' @ mac)) st
                 | None \<Rightarrow> st);
          st2 = foldl (\<lambda>s a. queue_command ns (address_command (if_name iface) a) s) st1
                  (if_addresses iface);
          st3 = (if if_up iface
                 then queue_command ns (snprintf 512 (''ip link set '' @ if_name iface @ '' up'')) st2
                 else st2)
      in if if_mtu iface \<noteq> 0 \<and> if_mtu iface \<noteq> 1500
         then queue_command ns (snprintf 512 (''ip link set '' @ if_name iface @ '' mtu ''
                 @ fmt_d (if_mtu iface))) st3
         else st3)"

text \<open>
  One round of the loop.  A loopback interface is skipped.  Otherwise the interface code is
  taken from the registry, the names of the two ends are formatted into 16-byte buffers,
  and the pair is created in the host namespace; everything else is inside
  \<^verbatim>\<open>if (system(cmd) == 0)\<close>.
\<close>

definition setup_interface ::
  "mesh_env \<Rightarrow> string \<Rightarrow> string \<Rightarrow> interface_t \<Rightarrow> mesh_state \<Rightarrow> fault + mesh_state" where
  "setup_interface env ns router_code iface st =
     (if if_name iface = ''lo'' then Inr st
      else
        (case get_interface_code_shm (ms_registry st) router_code (if_name iface) of
           Inl f \<Rightarrow> Inl f
         | Inr (iface_code, reg) \<Rightarrow>
             (let veth_router = snprintf 16 (router_code @ printf_s iface_code @ ''r'');
                  veth_hidden = snprintf 16 (router_code @ printf_s iface_code @ ''h'');
                  cmd = snprintf 512 (''ip link add '' @ veth_router @ '' type veth peer name ''
                          @ veth_hidden @ '' 2>/dev/null'');
                  st1 = run_system cmd (st\<lparr> ms_registry := reg \<rparr>)
              in if system_returns env (length (ms_trace st)) cmd = 0
                 then
                   (let st2 = st1\<lparr> ms_interfaces_created := ms_interfaces_created st1 + 1 \<rparr>;
                        st3 = run_system (snprintf 512 (''ip link set '' @ veth_router
                                 @ '' netns '' @ ns)) st2;
                        st4 = queue_command ns (snprintf 512 (''ip link set '' @ veth_router
                                 @ '' name '' @ if_name iface)) st3;
                        st5 = run_system (snprintf 512 (''ip link set '' @ veth_hidden
                                 @ '' netns '' @ HIDDEN_NS)) st4
                    in case first_ipv4_subnet (if_addresses iface) of
                         Inl f \<Rightarrow> Inl f
                       | Inr subnet \<Rightarrow>
                           Inr (configure_interface ns iface (attach_to_bridge veth_hidden subnet st5)))
                 else Inr st1)))"

fun setup_interfaces ::
  "mesh_env \<Rightarrow> string \<Rightarrow> string \<Rightarrow> nat \<Rightarrow> interface_t list \<Rightarrow> mesh_state \<Rightarrow> fault + mesh_state" where
  "setup_interfaces env ns router_code i [] st = Inr st"
| "setup_interfaces env ns router_code i (iface # rest) st =
     (if interrupted env i then Inr st
      else
        (case setup_interface env ns router_code iface st of
           Inl f \<Rightarrow> Inl f
         | Inr st' \<Rightarrow> setup_interfaces env ns router_code (Suc i) rest st'))"

subsection \<open>The steps prescribed for an interface\<close>

text \<open>
  The command lines as the specification gives them, without the buffers: creating the
  pair, then moving the router end into the router namespace, renaming it (queued), moving
  the hidden end into the hidden namespace, attaching the hidden end to the bridge of the
  first IPv4 subnet and bringing it up, and the queued MAC, address, up and MTU commands.
\<close>

definition veth_add_command :: "string \<Rightarrow> string \<Rightarrow> string" where
  "veth_add_command veth_router veth_hidden =
     ''ip link add '' @ veth_router @ '' type veth peer name '' @ veth_hidden @ '' 2>/dev/null''"

definition rename_command :: "string \<Rightarrow> interface_t \<Rightarrow> string" where
  "rename_command veth_router iface = ''ip link set '' @ veth_router @ '' name '' @ if_name iface"

definition interface_commands :: "interface_t \<Rightarrow> string list" where
  "interface_commands iface =
     (case if_mac iface of
        Some mac \<Rightarrow> [''ip link set '' @ if_name iface @ '' address '' @ mac]
      | None \<Rightarrow> [])
     @ map (\<lambda>a. ''ip addr add '' @ addr_ip a @ '' brd ''
                 @ (case addr_broadcast a of Some b \<Rightarrow> b | None \<Rightarrow> ''+'')
                 @ '' dev '' @ if_name iface) (if_addresses iface)
     @ (if if_up iface then [''ip link set '' @ if_name iface @ '' up''] else [])
     @ (if if_mtu iface \<noteq> 0 \<and> if_mtu iface \<noteq> 1500
        then [''ip link set '' @ if_name iface @ '' mtu '' @ fmt_d (if_mtu iface)] else [])"

definition bridge_for :: "shm_registry \<Rightarrow> string option \<Rightarrow> string option" where
  "bridge_for reg subnet =
     (case subnet of
        None \<Rightarrow> None
      | Some sn \<Rightarrow> map_option (\<lambda>b. be_bridge_name (reg_bridges reg b)) (find_bridge_by_subnet reg sn))"

definition veth_steps ::
  "string \<Rightarrow> string \<Rightarrow> string \<Rightarrow> interface_t \<Rightarrow> string option \<Rightarrow> mesh_event list" where
  "veth_steps ns veth_router veth_hidden iface bridge =
     [Sys (''ip link set '' @ veth_router @ '' netns '' @ ns),
      Queue ns (rename_command veth_router iface),
      Sys (''ip link set '' @ veth_hidden @ '' netns hidden-mesh'')]
     @ (case bridge of
          None \<Rightarrow> []
        | Some b \<Rightarrow>
            [Sys (''ip netns exec hidden-mesh ip link set '' @ veth_hidden @ '' master '' @ b),
             Sys (''ip netns exec hidden-mesh ip link set '' @ veth_hidden @ '' up'')])
     @ map (Queue ns) (interface_commands iface)"

text \<open>The batch after a list of commands has been handed to \<^verbatim>\<open>batch_add_command\<close>.\<close>

definition queue_all :: "string \<Rightarrow> string list \<Rightarrow> batch_context option \<Rightarrow> batch_context option" where
  "queue_all ns cmds b = foldl (\<lambda>b c. snd (batch_add_command b (Some ns) (Some c))) b cmds"

text \<open>
  The sizes within which no buffer of the loop truncates: the two codes leave room for the
  suffix in a 16-byte device name, and the names and texts of the router stay below the
  sizes the parser reads them with.
\<close>

definition interface_fits :: "string \<Rightarrow> string \<Rightarrow> string \<Rightarrow> interface_t \<Rightarrow> bool" where
  "interface_fits ns router_code iface_code iface \<longleftrightarrow>
     length router_code + length iface_code \<le> 14
     \<and> length ns \<le> 255
     \<and> length (if_name iface) \<le> 63
     \<and> (\<forall>mac. if_mac iface = Some mac \<longrightarrow> length mac \<le> 63)
     \<and> (\<forall>a \<in> set (if_addresses iface).
          length (addr_ip a) \<le> 62 \<and> (\<forall>b. addr_broadcast a = Some b \<longrightarrow> length b \<le> 62))
     \<and> - (2 ^ 31) \<le> if_mtu iface \<and> if_mtu iface < 2 ^ 31"

subsection \<open>Properties of the interface loop\<close>

lemma snprintf_fits: "length s < n \<Longrightarrow> snprintf n s = s"
  by (simp add: snprintf_def)

lemma length_fmt_d:
  assumes "- (2 ^ 31) \<le> i" and "i < 2 ^ 31"
  shows "length (fmt_d i) \<le> 11"
proof (cases "i < 0")
  case True
  with assms have "nat (- i) < 10 ^ 10" by simp
  from length_dec_digits [OF this] True show ?thesis by (simp add: fmt_d_def)
next
  case False
  with assms have "nat i < 10 ^ 10" by simp
  from length_dec_digits [OF this] False show ?thesis by (simp add: fmt_d_def)
qed

definition queue_commands :: "string \<Rightarrow> string list \<Rightarrow> mesh_state \<Rightarrow> mesh_state" where
  "queue_commands ns cmds st = foldl (\<lambda>s c. queue_command ns c s) st cmds"

lemma queue_commands_Nil: "queue_commands ns [] st = st"
  by (simp add: queue_commands_def)

lemma queue_commands_Cons:
  "queue_commands ns (c # cs) st = queue_commands ns cs (queue_command ns c st)"
  by (simp add: queue_commands_def)

lemma queue_commands_append:
  "queue_commands ns (cs @ ds) st = queue_commands ns ds (queue_commands ns cs st)"
  by (simp add: queue_commands_def)

lemma queue_commands_eq:
  "queue_commands ns cmds st =
     st\<lparr> ms_batch := queue_all ns cmds (ms_batch st),
         ms_trace := ms_trace st @ map (Queue ns) cmds \<rparr>"
proof (induction cmds arbitrary: st)
  case Nil
  show ?case by (simp add: queue_commands_Nil queue_all_def)
next
  case (Cons c cs)
  show ?case
    by (simp add: queue_commands_Cons Cons.IH) (simp add: queue_command_def queue_all_def)
qed

lemma queue_addresses:
  "foldl (\<lambda>s a. queue_command ns (f a) s) st addrs = queue_commands ns (map f addrs) st"
  by (simp add: queue_commands_def foldl_map)

lemma address_command_fits:
  assumes "length name \<le> 63" and "length (addr_ip a) \<le> 62"
    and "\<forall>b. addr_broadcast a = Some b \<longrightarrow> length b \<le> 62"
  shows "address_command name a =
           ''ip addr add '' @ addr_ip a @ '' brd ''
             @ (case addr_broadcast a of Some b \<Rightarrow> b | None \<Rightarrow> ''+'') @ '' dev '' @ name"
  unfolding address_command_def using assms
  by (intro snprintf_fits) (auto split: option.splits)

lemma configure_interface_commands:
  assumes "interface_fits ns router_code iface_code iface"
  shows "configure_interface ns iface st = queue_commands ns (interface_commands iface) st"
proof -
  from assms have nm: "length (if_name iface) \<le> 63"
    and mac: "\<And>m. if_mac iface = Some m \<Longrightarrow> length m \<le> 63"
    and ad: "\<And>a. a \<in> set (if_addresses iface) \<Longrightarrow> length (addr_ip a) \<le> 62
               \<and> (\<forall>b. addr_broadcast a = Some b \<longrightarrow> length b \<le> 62)"
    and mtu: "- (2 ^ 31) \<le> if_mtu iface" "if_mtu iface < 2 ^ 31"
    by (auto simp: interface_fits_def)
  have m: "snprintf 512 (''ip link set '' @ if_name iface @ '' address '' @ m)
             = ''ip link set '' @ if_name iface @ '' address '' @ m"
    if "if_mac iface = Some m" for m
    using nm mac [OF that] by (intro snprintf_fits) simp
  have a: "map (address_command (if_name iface)) (if_addresses iface)
             = map (\<lambda>a. ''ip addr add '' @ addr_ip a @ '' brd ''
                 @ (case addr_broadcast a of Some b \<Rightarrow> b | None \<Rightarrow> ''+'')
                 @ '' dev '' @ if_name iface) (if_addresses iface)"
    using nm ad by (intro map_cong refl address_command_fits) auto
  have u: "snprintf 512 (''ip link set '' @ if_name iface @ '' up'')
             = ''ip link set '' @ if_name iface @ '' up''"
    using nm by (intro snprintf_fits) simp
  have t: "snprintf 512 (''ip link set '' @ if_name iface @ '' mtu '' @ fmt_d (if_mtu iface))
             = ''ip link set '' @ if_name iface @ '' mtu '' @ fmt_d (if_mtu iface)"
    using nm length_fmt_d [OF mtu] by (intro snprintf_fits) simp
  show ?thesis
  proof (cases "if_mac iface")
    case None
    show ?thesis
      unfolding configure_interface_def interface_commands_def Let_def queue_addresses a u t None
      by (simp add: queue_commands_append queue_commands_Cons queue_commands_Nil)
  next
    case (Some mac)
    show ?thesis
      unfolding configure_interface_def interface_commands_def Let_def queue_addresses a u t Some
        option.case m [OF Some]
      by (simp add: queue_commands_append queue_commands_Cons queue_commands_Nil)
  qed
qed

lemma attach_to_bridge_steps:
  assumes "length veth_hidden \<le> 15"
    and "\<forall>b. length (be_bridge_name (reg_bridges (ms_registry st) b)) \<le> 31"
  shows "attach_to_bridge veth_hidden subnet st =
           st\<lparr> ms_trace := ms_trace st @
                 (case bridge_for (ms_registry st) subnet of
                    None \<Rightarrow> []
                  | Some b \<Rightarrow>
                      [Sys (''ip netns exec hidden-mesh ip link set '' @ veth_hidden @ '' master '' @ b),
                       Sys (''ip netns exec hidden-mesh ip link set '' @ veth_hidden @ '' up'')]) \<rparr>"
proof -
  have 1: "snprintf 512 (''ip netns exec '' @ HIDDEN_NS @ '' ip link set '' @ veth_hidden @ '' up'')
             = ''ip netns exec hidden-mesh ip link set '' @ veth_hidden @ '' up''"
    using assms(1) by (simp add: snprintf_def HIDDEN_NS_def)
  have 2: "snprintf 512 (''ip netns exec '' @ HIDDEN_NS @ '' ip link set '' @ veth_hidden
               @ '' master '' @ be_bridge_name (reg_bridges (ms_registry st) b))
             = ''ip netns exec hidden-mesh ip link set '' @ veth_hidden @ '' master ''
               @ be_bridge_name (reg_bridges (ms_registry st) b)" for b
    using assms(1) assms(2) [rule_format, of b] by (simp add: snprintf_def HIDDEN_NS_def)
  show ?thesis
    unfolding attach_to_bridge_def bridge_for_def 1 2
    by (simp add: run_system_def split: option.splits)
qed

text \<open>
  Claim C2, as the code has it.  For an interface that is not the loopback, whose code the
  registry hands out and whose texts fit the buffers, one round of the loop runs the command
  that creates the pair.  When that command returns 0, the round counts the interface, moves
  the router end into the router namespace, queues the rename, moves the hidden end into the
  hidden namespace, attaches the hidden end to the bridge registered for the first IPv4
  subnet (when there is one) and brings it up, and queues the MAC, address, up and MTU
  commands.  When the command returns anything else, as it does for a pair that exists
  already, the round ends there: nothing is moved, attached or queued.
\<close>

theorem setup_interface_veth_created_or_skipped:
  assumes "if_name iface \<noteq> ''lo''"
    and "get_interface_code_shm (ms_registry st) router_code (if_name iface)
           = Inr (Some iface_code, reg)"
    and "first_ipv4_subnet (if_addresses iface) = Inr subnet"
    and "interface_fits ns router_code iface_code iface"
    and "\<forall>b. length (be_bridge_name (reg_bridges reg b)) \<le> 31"
  shows "setup_interface env ns router_code iface st =
           Inr (if system_returns env (length (ms_trace st))
                     (veth_add_command (router_code @ iface_code @ ''r'')
                        (router_code @ iface_code @ ''h'')) = 0
                then st\<lparr> ms_registry := reg,
                         ms_interfaces_created := ms_interfaces_created st + 1,
                         ms_batch := queue_all ns
                            (rename_command (router_code @ iface_code @ ''r'') iface
                               # interface_commands iface) (ms_batch st),
                         ms_trace := ms_trace st @
                            Sys (veth_add_command (router_code @ iface_code @ ''r'')
                                   (router_code @ iface_code @ ''h''))
                            # veth_steps ns (router_code @ iface_code @ ''r'')
                                (router_code @ iface_code @ ''h'') iface (bridge_for reg subnet) \<rparr>
                else st\<lparr> ms_registry := reg,
                         ms_trace := ms_trace st @
                            [Sys (veth_add_command (router_code @ iface_code @ ''r'')
                                    (router_code @ iface_code @ ''h''))] \<rparr>)"
proof -
  let ?vr = "router_code @ iface_code @ ''r''"
  let ?vh = "router_code @ iface_code @ ''h''"
  from assms(4) have len: "length router_code + length iface_code \<le> 14" "length ns \<le> 255"
    "length (if_name iface) \<le> 63"
    by (simp_all add: interface_fits_def)
  have lo: "(if_name iface = ''lo'') = False" using assms(1) by simp
  have vr: "snprintf 16 (router_code @ printf_s (Some iface_code) @ ''r'') = ?vr"
    using len by (simp add: snprintf_def printf_s_def)
  have vh: "snprintf 16 (router_code @ printf_s (Some iface_code) @ ''h'') = ?vh"
    using len by (simp add: snprintf_def printf_s_def)
  have cmd: "snprintf 512 (''ip link add '' @ ?vr @ '' type veth peer name '' @ ?vh
               @ '' 2>/dev/null'') = veth_add_command ?vr ?vh"
    using len by (simp add: snprintf_def veth_add_command_def)
  have mv: "snprintf 512 (''ip link set '' @ ?vr @ '' netns '' @ ns)
              = ''ip link set '' @ ?vr @ '' netns '' @ ns"
    using len by (intro snprintf_fits) simp
  have rn: "snprintf 512 (''ip link set '' @ ?vr @ '' name '' @ if_name iface)
              = rename_command ?vr iface"
    unfolding rename_command_def using len by (intro snprintf_fits) simp
  have mh: "snprintf 512 (''ip link set '' @ ?vh @ '' netns '' @ HIDDEN_NS)
              = ''ip link set '' @ ?vh @ '' netns hidden-mesh''"
    using len by (simp add: snprintf_def HIDDEN_NS_def)
  have lvh: "length ?vh \<le> 15" using len by simp
  show ?thesis
    unfolding setup_interface_def lo if_False assms(2) assms(3) sum.case prod.case Let_def
      vr vh cmd mv rn mh
    using assms(5) lvh
    by (simp add: configure_interface_commands [OF assms(4)] attach_to_bridge_steps
          queue_commands_eq run_system_def queue_command_def veth_steps_def queue_all_def)
qed

text \<open>
  The example of the specification: router \<^verbatim>\<open>r1\<close> with code \<^verbatim>\<open>r000\<close>, the bridge of
  \<^verbatim>\<open>10.1.1.0/24\<close> registered, and the interface \<^verbatim>\<open>eth0\<close> with one address.
\<close>

definition example_registry :: shm_registry where
  "example_registry =
     snd (register_bridge_shm (snd (get_router_code_shm clear_shared_registry ''r1''))
            (generate_bridge_name 0 ''10.1.1.0/24'' 16) ''10.1.1.0/24'')"

definition example_eth0 :: interface_t where
  "example_eth0 =
     \<lparr> if_name = ''eth0'', if_mac = Some ''aa:bb:cc:dd:ee:01'', if_mtu = 1500, if_up = True,
       if_addresses = [\<lparr> addr_ip = ''10.1.1.2/24'', addr_broadcast = Some ''10.1.1.255'',
                         addr_scope = Some ''global'', addr_prefixlen = 24,
                         addr_secondary = False \<rparr>] \<rparr>"

definition example_state :: mesh_state where
  "example_state =
     \<lparr> ms_registry = example_registry, ms_interfaces_created = 0,
       ms_batch = Some (create_batch_context 3 ''/tsim_batch_1_1'' (1024 * 1024)),
       ms_trace = [] \<rparr>"

lemmas mesh_eval = setup_interface_def run_system_def queue_command_def printf_s_def
  inet_pton4_def addr_word_def inet_ntoa_def subnet_of_def attach_to_bridge_def
  address_command_def configure_interface_def HIDDEN_NS_def example_registry_def
  example_eth0_def example_state_def generate_bridge_name_def sscanf_subnet_def scan_u_def
  scan_lit_def to_unsigned_int_def

lemma example_registry_bridge:
  "find_bridge_by_subnet example_registry ''10.1.1.0/24'' = Some 0
   \<and> be_bridge_name (reg_bridges example_registry 0) = ''b01000100100024''"
  by (simp add: mesh_eval registry_eval)

lemma example_first_ipv4_subnet:
  "first_ipv4_subnet (if_addresses example_eth0) = Inr (Some ''10.1.1.0/24'')"
  by (simp add: mesh_eval registry_eval)

theorem setup_interface_veth_created_or_skipped_witness:
  "map_sum id ms_trace
     (setup_interface \<lparr> system_returns = (\<lambda>_ _. 0), interrupted = (\<lambda>_. False) \<rparr>
        ''r1'' ''r000'' example_eth0 example_state)
   = Inr [Sys ''ip link add r000i000r type veth peer name r000i000h 2>/dev/null'',
          Sys ''ip link set r000i000r netns r1'',
          Queue ''r1'' ''ip link set r000i000r name eth0'',
          Sys ''ip link set r000i000h netns hidden-mesh'',
          Sys ''ip netns exec hidden-mesh ip link set r000i000h master b01000100100024'',
          Sys ''ip netns exec hidden-mesh ip link set r000i000h up'',
          Queue ''r1'' ''ip link set eth0 address aa:bb:cc:dd:ee:01'',
          Queue ''r1'' ''ip addr add 10.1.1.2/24 brd 10.1.1.255 dev eth0'',
          Queue ''r1'' ''ip link set eth0 up'']
   \<and> map_sum id ms_interfaces_created
     (setup_interface \<lparr> system_returns = (\<lambda>_ _. 0), interrupted = (\<lambda>_. False) \<rparr>
        ''r1'' ''r000'' example_eth0 example_state) = Inr 1"
proof -
  let ?env = "\<lparr> system_returns = (\<lambda>_ _. 0), interrupted = (\<lambda>_. False) \<rparr>"
  obtain reg where code:
    "get_interface_code_shm (ms_registry example_state) ''r000'' (if_name example_eth0)
       = Inr (Some ''i000'', reg)"
    and bridges: "reg_bridges reg = reg_bridges example_registry"
    and find: "find_bridge_by_subnet reg ''10.1.1.0/24'' = Some 0"
    by (simp add: mesh_eval registry_eval)
  have name: "if_name example_eth0 \<noteq> ''lo''" by (simp add: example_eth0_def)
  have fits: "interface_fits ''r1'' ''r000'' ''i000'' example_eth0"
    by (simp add: interface_fits_def example_eth0_def)
  have len: "\<forall>b. length (be_bridge_name (reg_bridges reg b)) \<le> 31"
    unfolding bridges by (simp add: mesh_eval registry_eval)
  have bridge: "bridge_for reg (Some ''10.1.1.0/24'') = Some ''b01000100100024''"
    using example_registry_bridge by (simp add: bridge_for_def find bridges)
  from setup_interface_veth_created_or_skipped
         [OF name code example_first_ipv4_subnet fits len, of ?env]
  show ?thesis
    by (simp add: bridge veth_add_command_def veth_steps_def rename_command_def
          interface_commands_def example_eth0_def example_state_def)
qed

text \<open>
  Claim C2 as stated has the same steps whether or not the pair exists already.  For a pair
  that exists the creating command fails (\<^verbatim>\<open>ip\<close> exits with status 2, which \<^verbatim>\<open>system\<close>
  returns as 512); the loop over the interfaces of the example then runs that one command
  and nothing else, and the batch stays as it was.
\<close>

theorem setup_interfaces_skips_existing_pair:
  "map_sum id ms_trace
     (setup_interfaces \<lparr> system_returns = (\<lambda>_ _. 512), interrupted = (\<lambda>_. False) \<rparr>
        ''r1'' ''r000'' 0 [example_eth0] example_state)
   = Inr [Sys ''ip link add r000i000r type veth peer name r000i000h 2>/dev/null'']
   \<and> map_sum id ms_batch
     (setup_interfaces \<lparr> system_returns = (\<lambda>_ _. 512), interrupted = (\<lambda>_. False) \<rparr>
        ''r1'' ''r000'' 0 [example_eth0] example_state)
   = Inr (ms_batch example_state)"
  by (simp add: mesh_eval registry_eval)

end
